theory Spec2Isabelle
  imports Complex_Main "HOL-Library.Word"
begin

section \<open>JavaScript numbers and wire values\<close>

text \<open>
  A JavaScript number is modelled as a real number or one of the three special values
  \<open>NaN\<close>, \<open>+Infinity\<close> and \<open>-Infinity\<close>. The finite values are exact reals: the rounding
  of IEEE doubles, overflow of finite arithmetic to an infinity, and the sign of zero are
  not modelled. Comparisons, \<open>Math.min\<close> and \<open>Math.max\<close> are exact on doubles, so the
  clamping and range tests of the server behave on this model as they do in the code.
  The stores into typed arrays, which convert the number, are modelled as the
  conversions they are: \<open>to_int16\<close> and \<open>to_float32\<close> below.
\<close>

datatype jsnum = Fin real | PInf | NInf | NaN

fun js_neg :: "jsnum \<Rightarrow> jsnum" where
  "js_neg (Fin a) = Fin (- a)"
| "js_neg PInf = NInf"
| "js_neg NInf = PInf"
| "js_neg NaN = NaN"

fun js_add :: "jsnum \<Rightarrow> jsnum \<Rightarrow> jsnum" where
  "js_add (Fin a) (Fin b) = Fin (a + b)"
| "js_add NaN _ = NaN"
| "js_add _ NaN = NaN"
| "js_add PInf NInf = NaN"
| "js_add NInf PInf = NaN"
| "js_add PInf _ = PInf"
| "js_add _ PInf = PInf"
| "js_add NInf _ = NInf"
| "js_add _ NInf = NInf"

definition js_sub :: "jsnum \<Rightarrow> jsnum \<Rightarrow> jsnum" where
  "js_sub a b = js_add a (js_neg b)"

fun js_sgn :: "jsnum \<Rightarrow> real" where
  "js_sgn (Fin a) = sgn a"
| "js_sgn PInf = 1"
| "js_sgn NInf = - 1"
| "js_sgn NaN = 0"

definition inf_of_sign :: "real \<Rightarrow> jsnum" where
  "inf_of_sign s = (if s = 0 then NaN else if 0 < s then PInf else NInf)"

fun js_mul :: "jsnum \<Rightarrow> jsnum \<Rightarrow> jsnum" where
  "js_mul (Fin a) (Fin b) = Fin (a * b)"
| "js_mul NaN _ = NaN"
| "js_mul _ NaN = NaN"
| "js_mul a b = inf_of_sign (js_sgn a * js_sgn b)"

text \<open>Division; a zero divisor is taken as \<open>+0\<close>.\<close>

fun js_div :: "jsnum \<Rightarrow> jsnum \<Rightarrow> jsnum" where
  "js_div (Fin a) (Fin b) = (if b = 0 then inf_of_sign (sgn a) else Fin (a / b))"
| "js_div NaN _ = NaN"
| "js_div _ NaN = NaN"
| "js_div (Fin a) _ = Fin 0"
| "js_div a (Fin b) = inf_of_sign (js_sgn a * (if b < 0 then - 1 else 1))"
| "js_div _ _ = NaN"

fun js_lt :: "jsnum \<Rightarrow> jsnum \<Rightarrow> bool" where
  "js_lt (Fin a) (Fin b) = (a < b)"
| "js_lt NaN _ = False"
| "js_lt _ NaN = False"
| "js_lt NInf NInf = False"
| "js_lt NInf _ = True"
| "js_lt _ NInf = False"
| "js_lt PInf _ = False"
| "js_lt _ PInf = True"

definition js_gt :: "jsnum \<Rightarrow> jsnum \<Rightarrow> bool" where
  "js_gt a b = js_lt b a"

fun js_le :: "jsnum \<Rightarrow> jsnum \<Rightarrow> bool" where
  "js_le (Fin a) (Fin b) = (a \<le> b)"
| "js_le NaN _ = False"
| "js_le _ NaN = False"
| "js_le NInf _ = True"
| "js_le _ NInf = False"
| "js_le _ PInf = True"
| "js_le PInf _ = False"

text \<open>\<open>Math.min\<close> and \<open>Math.max\<close> of two arguments: \<open>NaN\<close> when either argument is.\<close>

definition Math_min :: "jsnum \<Rightarrow> jsnum \<Rightarrow> jsnum" where
  "Math_min a b = (if a = NaN \<or> b = NaN then NaN else if js_lt b a then b else a)"

definition Math_max :: "jsnum \<Rightarrow> jsnum \<Rightarrow> jsnum" where
  "Math_max a b = (if a = NaN \<or> b = NaN then NaN else if js_lt a b then b else a)"

fun Math_sqrt :: "jsnum \<Rightarrow> jsnum" where
  "Math_sqrt (Fin a) = (if a < 0 then NaN else Fin (sqrt a))"
| "Math_sqrt PInf = PInf"
| "Math_sqrt NInf = NaN"
| "Math_sqrt NaN = NaN"

text \<open>\<open>Math.pow(a, 2)\<close>.\<close>

definition Math_pow2 :: "jsnum \<Rightarrow> jsnum" where
  "Math_pow2 a = js_mul a a"

fun Math_cos :: "jsnum \<Rightarrow> jsnum" where
  "Math_cos (Fin a) = Fin (cos a)"
| "Math_cos _ = NaN"

fun Math_sin :: "jsnum \<Rightarrow> jsnum" where
  "Math_sin (Fin a) = Fin (sin a)"
| "Math_sin _ = NaN"

definition Math_PI :: jsnum where
  "Math_PI = Fin pi"

text \<open>
  The values a message field can hold. Strings, arrays and objects in scalar fields are
  outside the model; a missing field is \<open>Undefined\<close>.
\<close>

datatype jsval = Undefined | Null | Bool bool | Num jsnum

text \<open>\<open>typeof v === 'number'\<close>.\<close>

fun is_number :: "jsval \<Rightarrow> bool" where
  "is_number (Num _) = True"
| "is_number _ = False"

text \<open>Truthiness, as tested by \<open>&&\<close>, \<open>||\<close>, \<open>!\<close> and \<open>if\<close>.\<close>

fun truthy :: "jsval \<Rightarrow> bool" where
  "truthy Undefined = False"
| "truthy Null = False"
| "truthy (Bool b) = b"
| "truthy (Num (Fin a)) = (a \<noteq> 0)"
| "truthy (Num NaN) = False"
| "truthy (Num _) = True"

text \<open>The conversion \<open>ToNumber\<close> applied by arithmetic operators.\<close>

fun to_number :: "jsval \<Rightarrow> jsnum" where
  "to_number Undefined = NaN"
| "to_number Null = Fin 0"
| "to_number (Bool b) = Fin (if b then 1 else 0)"
| "to_number (Num n) = n"

section \<open>The audio codec of the client\<close>

text \<open>
  Storing a number into an \<open>Int16Array\<close> converts it with \<open>ToInt16\<close>: \<open>NaN\<close> and the
  infinities become 0, a finite value is truncated towards zero and reduced modulo
  \<open>2 ^ 16\<close> into the signed 16-bit range.
\<close>

definition js_trunc :: "real \<Rightarrow> int" where
  "js_trunc r = (if 0 \<le> r then \<lfloor>r\<rfloor> else \<lceil>r\<rceil>)"

fun to_int16 :: "jsnum \<Rightarrow> 16 word" where
  "to_int16 (Fin r) = word_of_int (js_trunc r)"
| "to_int16 _ = 0"

text \<open>
  The body of the loop of \<open>compressAudio\<close>:
  \<open>compressed[i] = Math.max(-32768, Math.min(32767, audioData[i] * 32767))\<close>.
\<close>

definition compress_sample :: "jsnum \<Rightarrow> 16 word" where
  "compress_sample s =
     to_int16 (Math_max (Fin (- 32768)) (Math_min (Fin 32767) (js_mul s (Fin 32767))))"

definition compressAudio :: "jsnum list \<Rightarrow> 16 word list" where
  "compressAudio audioData = map compress_sample audioData"

text \<open>
  Storing a number into a \<open>Float32Array\<close> rounds it to the nearest 32-bit float, ties to
  the even significand. A float of binary exponent \<open>e\<close> is a multiple of the quantum
  \<open>2 ^ (e - 23)\<close>; the exponent is found by search from 127 down and stops at -126, where
  the subnormal numbers begin. A result of magnitude \<open>2 ^ 128\<close> or more is an infinity.
\<close>

definition round_half_even :: "real \<Rightarrow> int" where
  "round_half_even y =
     (let f = \<lfloor>y\<rfloor>; d = y - real_of_int f
      in if d < 1 / 2 then f else if 1 / 2 < d then f + 1 else if even f then f else f + 1)"

fun f32_exp_search :: "nat \<Rightarrow> real \<Rightarrow> int" where
  "f32_exp_search 0 a = - 126"
| "f32_exp_search (Suc k) a =
     (if 2 powi (int k - 125) \<le> a then int k - 125 else f32_exp_search k a)"

definition f32_exponent :: "real \<Rightarrow> int" where
  "f32_exponent r = f32_exp_search 253 \<bar>r\<bar>"

definition f32_quantum :: "real \<Rightarrow> real" where
  "f32_quantum r = 2 powi (f32_exponent r - 23)"

definition fround :: "real \<Rightarrow> real" where
  "fround r = real_of_int (round_half_even (r / f32_quantum r)) * f32_quantum r"

fun to_float32 :: "jsnum \<Rightarrow> jsnum" where
  "to_float32 (Fin r) =
     (if 2 ^ 128 \<le> \<bar>fround r\<bar> then (if 0 < r then PInf else NInf) else Fin (fround r))"
| "to_float32 a = a"

text \<open>The elements of a \<open>Float32Array\<close> that are numbers: the reals the store leaves as they are.\<close>

definition is_float32 :: "real \<Rightarrow> bool" where
  "is_float32 r = (to_float32 (Fin r) = Fin r)"

text \<open>
  The body of the loop of \<open>decompressAudio\<close>: \<open>decompressed[i] = compressedData[i] / 32767\<close>,
  where \<open>decompressed\<close> is a \<open>Float32Array\<close>.
\<close>

definition decompress_sample :: "16 word \<Rightarrow> jsnum" where
  "decompress_sample c = to_float32 (js_div (Fin (real_of_int (sint c))) (Fin 32767))"

definition decompressAudio :: "16 word list \<Rightarrow> jsnum list" where
  "decompressAudio compressedData = map decompress_sample compressedData"

section \<open>The server's game state\<close>

type_synonym socket_id = string

text \<open>
  The player object built by the connection handler. The fields \<open>lastActivity\<close> and
  \<open>lastShoot\<close> are absent from the object literal and appear only when a handler
  assigns them: \<open>None\<close> is the missing (\<open>undefined\<close>) field. Times are the integer
  milliseconds of \<open>Date.now()\<close>.
\<close>

record player =
  p_id :: socket_id
  p_x :: jsnum
  p_y :: jsnum
  p_angle :: jsval
  p_color :: string
  p_name :: string
  p_health :: int
  p_audioEnabled :: bool
  p_lastAudioPacket :: int
  p_connectedAt :: int
  p_transport :: string
  p_lastActivity :: "int option"
  p_lastShoot :: "int option"

record bullet =
  b_id :: nat
  b_playerId :: socket_id
  b_x :: jsnum
  b_y :: jsnum
  b_angle :: jsval
  b_speed :: jsnum
  b_createdAt :: int

record audio_stats =
  packetsPerSecond :: nat
  totalPackets :: nat
  activeStreams :: nat
  averageLatency :: jsnum
  peakConcurrentUsers :: nat

text \<open>
  \<open>gameState.players\<close> and \<open>gameState.bullets\<close> are JavaScript \<open>Map\<close>s: they iterate in
  insertion order, \<open>set\<close> on a present key replaces the value in place and on a new key
  appends, \<open>delete\<close> removes the entry. They are association lists with \<open>map_of\<close> for
  \<open>get\<close>, \<open>map_set\<close> for \<open>set\<close> and \<open>map_delete\<close> for \<open>delete\<close>.

  Two parts of the runtime are state of the model too: \<open>timers\<close> holds the bullet
  identities whose \<open>setTimeout\<close> callback is pending, and \<open>connected\<close> the sockets
  Socket.IO holds open, which decides who receives a broadcast.
\<close>

fun map_set :: "'k \<Rightarrow> 'v \<Rightarrow> ('k \<times> 'v) list \<Rightarrow> ('k \<times> 'v) list" where
  "map_set k v [] = [(k, v)]"
| "map_set k v ((k', v') # m) = (if k' = k then (k, v) # m else (k', v') # map_set k v m)"

definition map_delete :: "'k \<Rightarrow> ('k \<times> 'v) list \<Rightarrow> ('k \<times> 'v) list" where
  "map_delete k m = filter (\<lambda>kv. fst kv \<noteq> k) m"

record server_state =
  players :: "(socket_id \<times> player) list"
  bullets :: "(nat \<times> bullet) list"
  bulletIdCounter :: nat
  audioStats :: audio_stats
  timers :: "nat list"
  connected :: "socket_id list"

definition init_state :: server_state where
  "init_state = \<lparr>players = [], bullets = [], bulletIdCounter = 0,
     audioStats = \<lparr>packetsPerSecond = 0, totalPackets = 0, activeStreams = 0,
       averageLatency = Fin 0, peakConcurrentUsers = 0\<rparr>,
     timers = [], connected = []\<rparr>"

subsection \<open>Messages\<close>

record move_data =
  m_x :: jsval
  m_y :: jsval
  m_angle :: jsval

text \<open>The \<open>data\<close> field of an audio message: an array of samples, or some scalar value.\<close>

datatype payload = Samples "int list" | Scalar jsval

fun truthy_payload :: "payload \<Rightarrow> bool" where
  "truthy_payload (Samples _) = True"
| "truthy_payload (Scalar v) = truthy v"

record audio_frame =
  a_data :: payload
  a_timestamp :: jsval
  a_sampleRate :: jsval

record audio_state =
  s_enabled :: jsval

text \<open>
  Who an emitted message goes to: \<open>socket.emit\<close>, \<open>socket.broadcast.emit\<close>,
  \<open>socket.to(room).emit\<close> and \<open>io.emit\<close>. Every socket is alone in the room named by its
  own identity, and \<open>socket.to\<close> and \<open>socket.broadcast\<close> leave the emitting socket out.
\<close>

datatype audience =
    ToSocket socket_id
  | Broadcast socket_id
  | ToRoom socket_id socket_id
  | ToAll

fun recipients :: "socket_id list \<Rightarrow> audience \<Rightarrow> socket_id set" where
  "recipients conns (ToSocket s) = {s} \<inter> set conns"
| "recipients conns (Broadcast s) = set conns - {s}"
| "recipients conns (ToRoom s room) = ({room} \<inter> set conns) - {s}"
| "recipients conns ToAll = set conns"

datatype message =
    GameState "player list" "bullet list" string
  | PlayerJoined player
  | PlayerMoved socket_id jsnum jsnum jsval
  | BulletCreated bullet
  | BulletDestroyed nat
  | PlayerDamaged socket_id nat
  | AudioStream audio_frame socket_id string
  | PlayerAudioState socket_id bool
  | PlayerLeft socket_id

type_synonym emitted = "(audience \<times> message) list"

subsection \<open>Connection and disconnection\<close>

text \<open>
  The connection handler. \<open>rx\<close> and \<open>ry\<close> are the two draws of \<open>Math.random()\<close> for the
  spawn position; the colour and the name, which the code formats from further draws,
  are taken as given strings.
\<close>

definition newPlayer ::
  "socket_id \<Rightarrow> real \<Rightarrow> real \<Rightarrow> string \<Rightarrow> string \<Rightarrow> string \<Rightarrow> int \<Rightarrow> player" where
  "newPlayer sid rx ry color name transport now =
     \<lparr>p_id = sid,
      p_x = js_add (js_mul (Fin rx) (Fin 760)) (Fin 20),
      p_y = js_add (js_mul (Fin ry) (Fin 560)) (Fin 20),
      p_angle = Num (Fin 0),
      p_color = color,
      p_name = name,
      p_health = 100,
      p_audioEnabled = False,
      p_lastAudioPacket = now,
      p_connectedAt = now,
      p_transport = transport,
      p_lastActivity = None,
      p_lastShoot = None\<rparr>"

definition on_connection ::
  "server_state \<Rightarrow> socket_id \<Rightarrow> real \<Rightarrow> real \<Rightarrow> string \<Rightarrow> string \<Rightarrow> string \<Rightarrow> int
     \<Rightarrow> server_state \<times> emitted" where
  "on_connection st sid rx ry color name transport now =
     (let np = newPlayer sid rx ry color name transport now;
          st' = st\<lparr>players := map_set sid np (players st),
                   connected := List.insert sid (connected st)\<rparr>
      in (st', [(ToSocket sid, GameState (map snd (players st')) (map snd (bullets st')) transport),
                (Broadcast sid, PlayerJoined np)]))"

definition on_upgrade :: "server_state \<Rightarrow> socket_id \<Rightarrow> string \<Rightarrow> server_state \<times> emitted" where
  "on_upgrade st sid transport =
     (case map_of (players st) sid of
        None \<Rightarrow> (st, [])
      | Some player \<Rightarrow>
          (st\<lparr>players := map_set sid (player\<lparr>p_transport := transport\<rparr>) (players st)\<rparr>, []))"

definition on_disconnect :: "server_state \<Rightarrow> socket_id \<Rightarrow> server_state \<times> emitted" where
  "on_disconnect st sid =
     (st\<lparr>players := map_delete sid (players st), connected := removeAll sid (connected st)\<rparr>,
      [(Broadcast sid, PlayerLeft sid)])"

subsection \<open>Movement and shooting\<close>

definition on_playerMove ::
  "server_state \<Rightarrow> socket_id \<Rightarrow> move_data option \<Rightarrow> int \<Rightarrow> server_state \<times> emitted" where
  "on_playerMove st sid data now =
     (case map_of (players st) sid of
        None \<Rightarrow> (st, [])
      | Some player \<Rightarrow>
          (case data of
             None \<Rightarrow> (st, [])
           | Some d \<Rightarrow>
               if is_number (m_x d) \<and> is_number (m_y d) then
                 let player' = player
                       \<lparr>p_x := Math_max (Fin 20) (Math_min (Fin 800) (to_number (m_x d))),
                        p_y := Math_max (Fin 20) (Math_min (Fin 600) (to_number (m_y d))),
                        p_angle := (if truthy (m_angle d) then m_angle d else Num (Fin 0)),
                        p_lastActivity := Some now\<rparr>
                 in (st\<lparr>players := map_set sid player' (players st)\<rparr>,
                     [(Broadcast sid,
                       PlayerMoved sid (p_x player') (p_y player') (p_angle player'))])
               else (st, [])))"

text \<open>The rate limit \<open>!player.lastShoot || now - player.lastShoot > 200\<close>.\<close>

definition may_shoot :: "player \<Rightarrow> int \<Rightarrow> bool" where
  "may_shoot player now =
     (case p_lastShoot player of None \<Rightarrow> True | Some t \<Rightarrow> t = 0 \<or> now - t > 200)"

definition on_playerShoot :: "server_state \<Rightarrow> socket_id \<Rightarrow> int \<Rightarrow> server_state \<times> emitted" where
  "on_playerShoot st sid now =
     (case map_of (players st) sid of
        None \<Rightarrow> (st, [])
      | Some player \<Rightarrow>
          if may_shoot player now then
            let player' = player\<lparr>p_lastShoot := Some now\<rparr>;
                bullet = \<lparr>b_id = bulletIdCounter st, b_playerId = sid,
                          b_x = p_x player', b_y = p_y player', b_angle = p_angle player',
                          b_speed = Fin 300, b_createdAt = now\<rparr>
            in (st\<lparr>players := map_set sid player' (players st),
                    bullets := map_set (b_id bullet) bullet (bullets st),
                    bulletIdCounter := Suc (bulletIdCounter st),
                    timers := timers st @ [b_id bullet]\<rparr>,
                [(ToAll, BulletCreated bullet)])
          else (st, []))"

text \<open>The callback of the bullet's \<open>setTimeout\<close>, 3000 ms after the shot.\<close>

definition on_bulletTimeout :: "server_state \<Rightarrow> nat \<Rightarrow> server_state \<times> emitted" where
  "on_bulletTimeout st bid =
     (st\<lparr>bullets := map_delete bid (bullets st), timers := remove1 bid (timers st)\<rparr>,
      [(ToAll, BulletDestroyed bid)])"

subsection \<open>Audio relay\<close>

text \<open>
  \<open>Math.sqrt(Math.pow(a.x - b.x, 2) + Math.pow(a.y - b.y, 2))\<close>, the distance computed by
  \<open>getNearbyPlayers\<close>.
\<close>

definition player_distance :: "player \<Rightarrow> player \<Rightarrow> jsnum" where
  "player_distance player otherPlayer =
     Math_sqrt (js_add (Math_pow2 (js_sub (p_x player) (p_x otherPlayer)))
                       (Math_pow2 (js_sub (p_y player) (p_y otherPlayer))))"

fun nearby_loop :: "player \<Rightarrow> jsnum \<Rightarrow> (socket_id \<times> player) list \<Rightarrow> socket_id list" where
  "nearby_loop player radius [] = []"
| "nearby_loop player radius ((playerId, otherPlayer) # ps) =
     (if playerId \<noteq> p_id player \<and> js_le (player_distance player otherPlayer) radius
      then playerId # nearby_loop player radius ps
      else nearby_loop player radius ps)"

definition getNearbyPlayers :: "server_state \<Rightarrow> player \<Rightarrow> jsnum \<Rightarrow> socket_id list" where
  "getNearbyPlayers st player radius = nearby_loop player radius (players st)"

text \<open>The \<open>forEach\<close> over the nearby players in the audio handler.\<close>

fun relay_loop :: "socket_id \<Rightarrow> message \<Rightarrow> socket_id list \<Rightarrow> emitted" where
  "relay_loop sid msg [] = []"
| "relay_loop sid msg (nearbyPlayerId # ns) =
     (if nearbyPlayerId \<noteq> sid then (ToRoom sid nearbyPlayerId, msg) # relay_loop sid msg ns
      else relay_loop sid msg ns)"

text \<open>
  The audio handler. The argument is \<open>None\<close> for a falsy \<open>audioData\<close>. The handler reads
  the clock several times within one run; the model uses one reading \<open>now\<close>.
\<close>

definition on_audioStream ::
  "server_state \<Rightarrow> socket_id \<Rightarrow> audio_frame option \<Rightarrow> int \<Rightarrow> server_state \<times> emitted" where
  "on_audioStream st sid audioData now =
     (let stats1 = (audioStats st)
            \<lparr>packetsPerSecond := Suc (packetsPerSecond (audioStats st)),
             totalPackets := Suc (totalPackets (audioStats st))\<rparr>;
          st1 = st\<lparr>audioStats := stats1\<rparr>
      in case map_of (players st) sid of
           None \<Rightarrow> (st1, [])
         | Some player \<Rightarrow>
             (case audioData of
                None \<Rightarrow> (st1, [])
              | Some frame \<Rightarrow>
                  if truthy_payload (a_data frame) then
                    let player' = player\<lparr>p_audioEnabled := True, p_lastAudioPacket := now\<rparr>;
                        stats2 =
                          (if truthy (a_timestamp frame) then
                             stats1\<lparr>averageLatency :=
                               js_div (js_add (averageLatency stats1)
                                         (js_sub (Fin (real_of_int now))
                                                 (to_number (a_timestamp frame))))
                                      (Fin 2)\<rparr>
                           else stats1);
                        st2 = st\<lparr>players := map_set sid player' (players st),
                                 audioStats := stats2\<rparr>;
                        nearbyPlayers = getNearbyPlayers st2 player' (Fin 300);
                        msg = AudioStream frame sid (p_name player')
                    in if length nearbyPlayers > 0
                       then (st2, relay_loop sid msg nearbyPlayers)
                       else (st2, [(Broadcast sid, msg)])
                  else (st1, [])))"

text \<open>\<open>typeof state.enabled === 'boolean'\<close> holds for the \<open>Bool\<close> values only.\<close>

definition on_audioStateChanged ::
  "server_state \<Rightarrow> socket_id \<Rightarrow> audio_state option \<Rightarrow> server_state \<times> emitted" where
  "on_audioStateChanged st sid state =
     (case map_of (players st) sid of
        None \<Rightarrow> (st, [])
      | Some player \<Rightarrow>
          (case state of
             Some s \<Rightarrow>
               (case s_enabled s of
                  Bool enabled \<Rightarrow>
                    (st\<lparr>players :=
                          map_set sid (player\<lparr>p_audioEnabled := enabled\<rparr>) (players st)\<rparr>,
                     [(Broadcast sid, PlayerAudioState sid enabled)])
                | _ \<Rightarrow> (st, []))
           | None \<Rightarrow> (st, [])))"

subsection \<open>The periodic tasks\<close>

text \<open>The game loop, every 1000/60 ms. First the move of one bullet over the fixed step.\<close>

definition advance :: "bullet \<Rightarrow> bullet" where
  "advance bullet =
     (let radians = js_div (js_mul (to_number (b_angle bullet)) Math_PI) (Fin 180)
      in bullet
           \<lparr>b_x := js_add (b_x bullet)
                     (js_mul (js_mul (Math_cos radians) (b_speed bullet)) (js_div (Fin 1) (Fin 60))),
            b_y := js_add (b_y bullet)
                     (js_mul (js_mul (Math_sin radians) (b_speed bullet)) (js_div (Fin 1) (Fin 60)))\<rparr>)"

definition out_of_bounds :: "bullet \<Rightarrow> bool" where
  "out_of_bounds bullet =
     (js_lt (b_x bullet) (Fin 0) \<or> js_gt (b_x bullet) (Fin 800) \<or>
      js_lt (b_y bullet) (Fin 0) \<or> js_gt (b_y bullet) (Fin 600))"

definition bullet_distance :: "bullet \<Rightarrow> player \<Rightarrow> jsnum" where
  "bullet_distance bullet player =
     (let dx = js_sub (b_x bullet) (p_x player);
          dy = js_sub (b_y bullet) (p_y player)
      in Math_sqrt (js_add (js_mul dx dx) (js_mul dy dy)))"

text \<open>
  The inner \<open>forEach\<close> over the players. The flag tells whether the bullet was deleted
  from the map.
\<close>

fun collide :: "nat \<Rightarrow> bullet \<Rightarrow> (socket_id \<times> player) list \<Rightarrow> bool \<times> emitted" where
  "collide bid bullet [] = (False, [])"
| "collide bid bullet ((k, player) # ps) =
     (let (deleted, out) = collide bid bullet ps
      in if js_lt (bullet_distance bullet player) (Fin 20) \<and> p_id player \<noteq> b_playerId bullet
         then (True, (ToAll, PlayerDamaged (p_id player) 10) # (ToAll, BulletDestroyed bid) # out)
         else (deleted, out))"

text \<open>The body of the outer \<open>forEach\<close>: the bullet that stays in the map, if it does.\<close>

definition tick_bullet ::
  "(socket_id \<times> player) list \<Rightarrow> nat \<Rightarrow> bullet \<Rightarrow> bullet option \<times> emitted" where
  "tick_bullet ps bid bullet =
     (let bullet' = advance bullet
      in if out_of_bounds bullet' then (None, [(ToAll, BulletDestroyed bid)])
         else let (deleted, out) = collide bid bullet' ps
              in (if deleted then None else Some bullet', out))"

fun tick_bullets ::
  "(socket_id \<times> player) list \<Rightarrow> (nat \<times> bullet) list \<Rightarrow> (nat \<times> bullet) list \<times> emitted" where
  "tick_bullets ps [] = ([], [])"
| "tick_bullets ps ((bid, bullet) # bs) =
     (let (kept, out) = tick_bullet ps bid bullet;
          (bs', outs) = tick_bullets ps bs
      in ((case kept of None \<Rightarrow> bs' | Some bullet' \<Rightarrow> (bid, bullet') # bs'), out @ outs))"

definition gameLoop :: "server_state \<Rightarrow> server_state \<times> emitted" where
  "gameLoop st =
     (let (bs, out) = tick_bullets (players st) (bullets st)
      in (st\<lparr>bullets := bs\<rparr>, out))"

text \<open>
  The cleanup of inactive players, every 2000 ms: first the audio timeout, which clears
  the flag of a player whose last packet is older than 5000 ms, then the inactivity test
  \<open>player.lastActivity && (now - player.lastActivity) > 600000\<close>, which fails for a
  missing \<open>lastActivity\<close> and for the falsy value 0.
\<close>

definition audio_timeout :: "int \<Rightarrow> player \<Rightarrow> player" where
  "audio_timeout now player =
     (if p_audioEnabled player \<and> now - p_lastAudioPacket player > 5000
      then player\<lparr>p_audioEnabled := False\<rparr> else player)"

definition inactive :: "player \<Rightarrow> int \<Rightarrow> bool" where
  "inactive player now =
     (case p_lastActivity player of None \<Rightarrow> False | Some t \<Rightarrow> t \<noteq> 0 \<and> now - t > 600000)"

fun cleanup_loop ::
  "int \<Rightarrow> (socket_id \<times> player) list \<Rightarrow> (socket_id \<times> player) list \<times> emitted" where
  "cleanup_loop now [] = ([], [])"
| "cleanup_loop now ((playerId, player) # ps) =
     (let player1 = audio_timeout now player;
          (ps', out) = cleanup_loop now ps
      in if inactive player1 now then (ps', (ToAll, PlayerLeft playerId) # out)
         else ((playerId, player1) # ps', out))"

definition cleanup :: "server_state \<Rightarrow> int \<Rightarrow> server_state \<times> emitted" where
  "cleanup st now =
     (let (ps, out) = cleanup_loop now (players st)
      in (st\<lparr>players := ps\<rparr>, out))"

text \<open>The two statistics intervals (1000 ms and 5000 ms) write \<open>audioStats\<close> only.\<close>

definition resetStats :: "server_state \<Rightarrow> server_state" where
  "resetStats st =
     st\<lparr>audioStats := (audioStats st)
          \<lparr>packetsPerSecond := 0,
           peakConcurrentUsers :=
             (if length (players st) > peakConcurrentUsers (audioStats st)
              then length (players st) else peakConcurrentUsers (audioStats st))\<rparr>\<rparr>"

definition updateStats :: "server_state \<Rightarrow> server_state" where
  "updateStats st =
     st\<lparr>audioStats := (audioStats st)
          \<lparr>activeStreams := length (filter p_audioEnabled (map snd (players st)))\<rparr>\<rparr>"

subsection \<open>Events and runs\<close>

text \<open>
  Everything the single-threaded server reacts to: the socket events and the timers.
  A bullet's timeout fires only while it is pending. The \<open>ping\<close> and \<open>error\<close> handlers
  and the read-only HTTP endpoints touch no state and emit nothing.
\<close>

datatype event =
    Connection socket_id real real string string string int
  | Upgrade socket_id string
  | Ping socket_id
  | PlayerMove socket_id "move_data option" int
  | PlayerShoot socket_id int
  | AudioStreamIn socket_id "audio_frame option" int
  | AudioStateChanged socket_id "audio_state option"
  | Disconnect socket_id
  | SocketError socket_id
  | BulletTimeout nat
  | GameLoop
  | Cleanup int
  | ResetStats
  | UpdateStats

fun step :: "server_state \<Rightarrow> event \<Rightarrow> server_state \<times> emitted" where
  "step st (Connection sid rx ry color name transport now) =
     on_connection st sid rx ry color name transport now"
| "step st (Upgrade sid transport) = on_upgrade st sid transport"
| "step st (Ping sid) = (st, [])"
| "step st (PlayerMove sid data now) = on_playerMove st sid data now"
| "step st (PlayerShoot sid now) = on_playerShoot st sid now"
| "step st (AudioStreamIn sid audioData now) = on_audioStream st sid audioData now"
| "step st (AudioStateChanged sid state) = on_audioStateChanged st sid state"
| "step st (Disconnect sid) = on_disconnect st sid"
| "step st (SocketError sid) = (st, [])"
| "step st (BulletTimeout bid) =
     (if bid \<in> set (timers st) then on_bulletTimeout st bid else (st, []))"
| "step st GameLoop = gameLoop st"
| "step st (Cleanup now) = cleanup st now"
| "step st ResetStats = (resetStats st, [])"
| "step st UpdateStats = (updateStats st, [])"

fun run :: "server_state \<Rightarrow> event list \<Rightarrow> server_state \<times> emitted" where
  "run st [] = (st, [])"
| "run st (e # es) =
     (let (st1, out1) = step st e;
          (st2, out2) = run st1 es
      in (st2, out1 @ out2))"

section \<open>Notions used by the properties\<close>

text \<open>
  What holds of the player map in every state the server reaches: keys are distinct,
  every player is stored under its own identity, and every player has an open socket.
\<close>

definition wf_state :: "server_state \<Rightarrow> bool" where
  "wf_state st =
     (distinct (map fst (players st)) \<and>
      (\<forall>kp \<in> set (players st). p_id (snd kp) = fst kp) \<and>
      fst ` set (players st) \<subseteq> set (connected st))"

text \<open>
  The players a bullet at its new position hits: those within the hit radius other than
  the owner, in the iteration order of the map; and the events the loop emits for them.
\<close>

definition victims :: "bullet \<Rightarrow> (socket_id \<times> player) list \<Rightarrow> socket_id list" where
  "victims bullet ps =
     map (\<lambda>kp. p_id (snd kp))
       (filter (\<lambda>kp. js_lt (bullet_distance bullet (snd kp)) (Fin 20) \<and>
                      p_id (snd kp) \<noteq> b_playerId bullet) ps)"

definition damage_events :: "nat \<Rightarrow> socket_id list \<Rightarrow> emitted" where
  "damage_events bid vs =
     concat (map (\<lambda>v. [(ToAll, PlayerDamaged v 10), (ToAll, BulletDestroyed bid)]) vs)"

text \<open>
  The specification's wording of the audio recipients: the other live players within
  300 units of the sender, by Euclidean distance between two positions that are numbers.
\<close>

definition within_units :: "real \<Rightarrow> player \<Rightarrow> player \<Rightarrow> bool" where
  "within_units r p q =
     (case (p_x p, p_y p, p_x q, p_y q) of
        (Fin px, Fin py, Fin qx, Fin qy) \<Rightarrow> sqrt ((px - qx)\<^sup>2 + (py - qy)\<^sup>2) \<le> r
      | _ \<Rightarrow> False)"

definition neighbours :: "server_state \<Rightarrow> socket_id \<Rightarrow> player \<Rightarrow> socket_id list" where
  "neighbours st sid p =
     map fst (filter (\<lambda>kq. fst kq \<noteq> sid \<and> within_units 300 p (snd kq)) (players st))"

text \<open>The sockets that receive at least one of the emitted messages.\<close>

definition delivered :: "socket_id list \<Rightarrow> emitted \<Rightarrow> socket_id set" where
  "delivered conns out = (\<Union>am \<in> set out. recipients conns (fst am))"

text \<open>
  A \<open>playerMove\<close> message is accepted when the handler passes its guard: the socket has
  a player, the argument is truthy and both coordinates have type number.
\<close>

fun accepted_move :: "socket_id \<Rightarrow> server_state \<Rightarrow> event \<Rightarrow> bool" where
  "accepted_move sid st (PlayerMove s (Some d) now) =
     (s = sid \<and> map_of (players st) sid \<noteq> None \<and> is_number (m_x d) \<and> is_number (m_y d))"
| "accepted_move sid st _ = False"

fun no_accepted_move :: "socket_id \<Rightarrow> server_state \<Rightarrow> event list \<Rightarrow> bool" where
  "no_accepted_move sid st [] = True"
| "no_accepted_move sid st (e # es) =
     (\<not> accepted_move sid st e \<and> no_accepted_move sid (fst (step st e)) es)"

text \<open>
  The window of 200 ms that opens at \<open>t1\<close>, for the shots of one socket: every shoot
  request of the socket in the window carries a time from \<open>t1\<close> up to, and not
  including, \<open>t1 + 200\<close>, and the identity does not connect anew. Other events are free.
\<close>

fun in_window :: "socket_id \<Rightarrow> int \<Rightarrow> event \<Rightarrow> bool" where
  "in_window sid t1 (Connection s rx ry color name transport now) = (s \<noteq> sid)"
| "in_window sid t1 (PlayerShoot s t) = (s = sid \<longrightarrow> t1 \<le> t \<and> t < t1 + 200)"
| "in_window sid t1 _ = True"

fun bulletCreated_by :: "socket_id \<Rightarrow> audience \<times> message \<Rightarrow> bool" where
  "bulletCreated_by sid (a, BulletCreated b) = (b_playerId b = sid)"
| "bulletCreated_by sid _ = False"

fun is_connection :: "socket_id \<Rightarrow> event \<Rightarrow> bool" where
  "is_connection sid (Connection s rx ry color name transport now) = (s = sid)"
| "is_connection sid _ = False"

subsection \<open>Concrete scenarios\<close>

text \<open>
  Three tanks connect, all with spawn draws 0, which puts them at (20, 20); the first
  one shoots.
\<close>

definition three_tanks :: "event list" where
  "three_tanks =
     [Connection ''A'' 0 0 ''red'' ''Tank1'' ''websocket'' 1000,
      Connection ''B'' 0 0 ''blue'' ''Tank2'' ''websocket'' 1000,
      Connection ''C'' 0 0 ''green'' ''Tank3'' ''websocket'' 1000,
      PlayerShoot ''A'' 2000]"

text \<open>One tank moves to the right edge, facing right.\<close>

definition at_right_edge :: "event list" where
  "at_right_edge =
     [Connection ''A'' 0 0 ''red'' ''Tank1'' ''websocket'' 1000,
      PlayerMove ''A'' (Some \<lparr>m_x = Num (Fin 800), m_y = Num (Fin 300), m_angle = Num (Fin 0)\<rparr>) 1500]"

text \<open>Two tanks connect.\<close>

definition two_tanks :: "event list" where
  "two_tanks =
     [Connection ''A'' 0 0 ''red'' ''Tank1'' ''websocket'' 1000,
      Connection ''B'' 0 0 ''blue'' ''Tank2'' ''websocket'' 1000]"

section \<open>Basic facts\<close>

subsection \<open>Arithmetic on finite numbers\<close>

lemma js_sub_Fin [simp]: "js_sub (Fin a) (Fin b) = Fin (a - b)"
  by (simp add: js_sub_def)

lemma Math_min_Fin [simp]: "Math_min (Fin a) (Fin b) = Fin (min a b)"
  by (simp add: Math_min_def min_def)

lemma Math_max_Fin [simp]: "Math_max (Fin a) (Fin b) = Fin (max a b)"
  by (simp add: Math_max_def max_def)

lemma sqrt_less_20 [simp]: "(sqrt a < 20) = (a < 400)"
proof -
  have "sqrt 400 = sqrt (20\<^sup>2)" by simp
  then have e: "sqrt 400 = 20" by (simp del: real_sqrt_four)
  have "(sqrt a < sqrt 400) = (a < 400)" by (rule real_sqrt_less_iff)
  then show ?thesis by (simp add: e)
qed

subsection \<open>The maps\<close>

lemma set_map_set: "kv \<in> set (map_set k v m) \<Longrightarrow> kv = (k, v) \<or> kv \<in> set m"
  by (induction m) (auto split: if_splits)

lemma keys_map_set: "fst ` set (map_set k v m) = insert k (fst ` set m)"
proof (induction m)
  case Nil
  then show ?case by simp
next
  case (Cons a m)
  then show ?case by (cases a) (simp add: insert_commute)
qed

lemma distinct_map_set: "distinct (map fst m) \<Longrightarrow> distinct (map fst (map_set k v m))"
proof (induction m)
  case Nil
  then show ?case by simp
next
  case (Cons a m)
  then show ?case using keys_map_set [of k v m] by (cases a) auto
qed

lemma map_of_map_set: "map_of (map_set k v m) k' = (if k' = k then Some v else map_of m k')"
  by (induction m) auto

lemma set_map_delete: "set (map_delete k m) = {kv \<in> set m. fst kv \<noteq> k}"
  by (auto simp: map_delete_def)

lemma distinct_map_delete: "distinct (map fst m) \<Longrightarrow> distinct (map fst (map_delete k m))"
  by (simp add: map_delete_def distinct_map_filter)

lemma map_of_map_delete: "map_of (map_delete k m) k' = (if k' = k then None else map_of m k')"
  by (induction m) (auto simp: map_delete_def)

subsection \<open>The cleanup as a filter\<close>

lemma cleanup_loop_eq:
  "cleanup_loop now ps =
     (filter (\<lambda>kp. \<not> inactive (snd kp) now) (map (\<lambda>kp. (fst kp, audio_timeout now (snd kp))) ps),
      map (\<lambda>kp. (ToAll, PlayerLeft (fst kp)))
        (filter (\<lambda>kp. inactive (snd kp) now) (map (\<lambda>kp. (fst kp, audio_timeout now (snd kp))) ps)))"
  by (induction ps) (auto simp: Let_def split: prod.splits)

lemma inactive_audio_timeout [simp]: "inactive (audio_timeout now p) now' = inactive p now'"
  by (simp add: inactive_def audio_timeout_def)

subsection \<open>What one event does to a player record\<close>

text \<open>
  Every entry of the player map after an event is either the fresh player of a
  connection, or an entry of the map before the event, unchanged or with the fields
  written by the one handler that fits.
\<close>

lemma step_players:
  assumes "(k, p') \<in> set (players (fst (step st e)))"
  shows "(\<exists>rx ry c n tr now. e = Connection k rx ry c n tr now \<and> p' = newPlayer k rx ry c n tr now)
       \<or> (\<exists>p. (k, p) \<in> set (players st) \<and>
            (p' = p
           \<or> (\<exists>tr. e = Upgrade k tr \<and> p' = p\<lparr>p_transport := tr\<rparr>)
           \<or> (\<exists>d now. e = PlayerMove k (Some d) now \<and> is_number (m_x d) \<and> is_number (m_y d) \<and>
                p' = p\<lparr>p_x := Math_max (Fin 20) (Math_min (Fin 800) (to_number (m_x d))),
                       p_y := Math_max (Fin 20) (Math_min (Fin 600) (to_number (m_y d))),
                       p_angle := (if truthy (m_angle d) then m_angle d else Num (Fin 0)),
                       p_lastActivity := Some now\<rparr>)
           \<or> (\<exists>now. e = PlayerShoot k now \<and> may_shoot p now \<and> p' = p\<lparr>p_lastShoot := Some now\<rparr>)
           \<or> (\<exists>f now. e = AudioStreamIn k (Some f) now \<and>
                p' = p\<lparr>p_audioEnabled := True, p_lastAudioPacket := now\<rparr>)
           \<or> (\<exists>s b. e = AudioStateChanged k (Some s) \<and> p' = p\<lparr>p_audioEnabled := b\<rparr>)
           \<or> (\<exists>now. e = Cleanup now \<and> p' = audio_timeout now p)))"
proof (cases e)
  case (Connection sid rx ry c n tr now)
  with assms show ?thesis
    by (auto simp: on_connection_def Let_def dest!: set_map_set)
next
  case (Upgrade sid tr)
  with assms show ?thesis
    by (auto simp: on_upgrade_def split: option.splits dest!: set_map_set map_of_SomeD)
next
  case (PlayerMove sid d now)
  with assms show ?thesis
    by (auto simp: on_playerMove_def Let_def split: option.splits if_splits
        dest!: set_map_set map_of_SomeD)
next
  case (PlayerShoot sid now)
  with assms show ?thesis
    by (auto simp: on_playerShoot_def Let_def split: option.splits if_splits
        dest!: set_map_set map_of_SomeD)
next
  case (AudioStreamIn sid f now)
  with assms show ?thesis
    by (auto simp: on_audioStream_def Let_def split: option.splits if_splits
        dest!: set_map_set map_of_SomeD)
next
  case (AudioStateChanged sid s)
  with assms show ?thesis
    by (auto simp: on_audioStateChanged_def split: option.splits jsval.splits
        dest!: set_map_set map_of_SomeD)
next
  case (Disconnect sid)
  with assms show ?thesis by (auto simp: on_disconnect_def set_map_delete)
next
  case (BulletTimeout bid)
  with assms show ?thesis by (auto simp: on_bulletTimeout_def split: if_splits)
next
  case GameLoop
  with assms show ?thesis by (auto simp: gameLoop_def split: prod.splits)
next
  case (Cleanup now)
  with assms show ?thesis by (auto simp: cleanup_def cleanup_loop_eq)
next
  case ResetStats
  with assms show ?thesis by (simp add: resetStats_def)
next
  case UpdateStats
  with assms show ?thesis by (simp add: updateStats_def)
qed (use assms in auto)

subsection \<open>Runs\<close>

lemmas handler_defs = on_connection_def on_upgrade_def on_playerMove_def on_playerShoot_def
  on_audioStream_def on_audioStateChanged_def on_disconnect_def on_bulletTimeout_def
  cleanup_def resetStats_def updateStats_def

lemmas run_defs = on_connection_def newPlayer_def init_state_def on_playerShoot_def may_shoot_def
  gameLoop_def tick_bullet_def advance_def out_of_bounds_def bullet_distance_def js_gt_def
  Math_PI_def on_playerMove_def on_bulletTimeout_def map_delete_def on_disconnect_def
  cleanup_def inactive_def audio_timeout_def Let_def

lemma run_Cons_fst: "fst (run st (e # es)) = fst (run (fst (step st e)) es)"
  by (simp add: Let_def case_prod_beta)

lemma run_Cons_snd: "snd (run st (e # es)) = snd (step st e) @ snd (run (fst (step st e)) es)"
  by (simp add: Let_def case_prod_beta)

lemma run_append:
  "run st (es @ es') =
     (fst (run (fst (run st es)) es'), snd (run st es) @ snd (run (fst (run st es)) es'))"
  by (induction es arbitrary: st) (simp_all add: Let_def case_prod_beta)

subsection \<open>The loops of the game loop and of the audio relay\<close>

lemma collide_eq:
  "collide bid bullet ps = (victims bullet ps \<noteq> [], damage_events bid (victims bullet ps))"
  by (induction ps) (auto simp: victims_def damage_events_def Let_def split: prod.splits)

lemma tick_bullets_out:
  "snd (tick_bullets ps bs) = concat (map (\<lambda>kb. snd (tick_bullet ps (fst kb) (snd kb))) bs)"
  by (induction bs) (auto simp: Let_def split: prod.splits)

lemma gameLoop_out:
  "snd (gameLoop st) =
     concat (map (\<lambda>kb. snd (tick_bullet (players st) (fst kb) (snd kb))) (bullets st))"
  using tick_bullets_out [of "players st" "bullets st"]
  by (auto simp: gameLoop_def split: prod.splits)

lemma gameLoop_players [simp]: "players (fst (gameLoop st)) = players st"
  by (simp add: gameLoop_def split: prod.splits)

lemma relay_loop_aud: "(a, m) \<in> set (relay_loop sid msg ns) \<Longrightarrow> \<exists>k. a = ToRoom sid k"
  by (induction ns) (auto split: if_splits)

text \<open>Only the cleanup emits \<open>playerLeft\<close> to all, and only for an inactive player.\<close>

lemma step_emits_left:
  "(ToAll, PlayerLeft sid) \<in> set (snd (step st e)) \<Longrightarrow>
     \<exists>now p. e = Cleanup now \<and> (sid, p) \<in> set (players st) \<and> inactive p now"
proof (cases e)
  case GameLoop
  assume "(ToAll, PlayerLeft sid) \<in> set (snd (step st e))"
  with GameLoop show ?thesis
    by (auto simp: gameLoop_out tick_bullet_def collide_eq damage_events_def Let_def
        split: if_splits)
next
  case (Cleanup now)
  assume "(ToAll, PlayerLeft sid) \<in> set (snd (step st e))"
  with Cleanup show ?thesis
    by (auto simp: cleanup_def cleanup_loop_eq split: prod.splits)
qed (auto simp: on_connection_def on_upgrade_def on_playerMove_def on_playerShoot_def
      on_audioStream_def on_audioStateChanged_def on_disconnect_def on_bulletTimeout_def
      Let_def dest: relay_loop_aud
      split: option.splits prod.splits jsval.splits if_splits)

subsection \<open>Reachable states are well formed\<close>

lemma step_connected:
  "k \<in> set (connected st) \<Longrightarrow> e \<noteq> Disconnect k \<Longrightarrow> k \<in> set (connected (fst (step st e)))"
  by (cases e)
    (auto simp: handler_defs gameLoop_def Let_def
      split: option.splits prod.splits jsval.splits if_splits)

lemma step_distinct:
  "distinct (map fst (players st)) \<Longrightarrow> distinct (map fst (players (fst (step st e))))"
  by (cases e)
    (auto simp: handler_defs cleanup_loop_eq Let_def distinct_map_set distinct_map_delete
      distinct_map_filter comp_def
      split: option.splits prod.splits jsval.splits if_splits)

lemma wf_state_step:
  assumes "wf_state st"
  shows "wf_state (fst (step st e))"
proof -
  have d: "distinct (map fst (players (fst (step st e))))"
    using assms by (simp add: wf_state_def step_distinct)
  have i: "\<forall>kp \<in> set (players (fst (step st e))). p_id (snd kp) = fst kp"
  proof
    fix kp assume "kp \<in> set (players (fst (step st e)))"
    then have "(fst kp, snd kp) \<in> set (players (fst (step st e)))" by simp
    from step_players [OF this] show "p_id (snd kp) = fst kp"
      using assms by (fastforce simp: wf_state_def newPlayer_def audio_timeout_def)
  qed
  have c: "fst ` set (players (fst (step st e))) \<subseteq> set (connected (fst (step st e)))"
  proof
    fix k assume "k \<in> fst ` set (players (fst (step st e)))"
    then obtain p' where p': "(k, p') \<in> set (players (fst (step st e)))" by auto
    show "k \<in> set (connected (fst (step st e)))"
    proof (cases "e = Disconnect k")
      case True
      with p' show ?thesis by (simp add: on_disconnect_def set_map_delete)
    next
      case False
      from step_players [OF p']
      consider (fresh) rx ry c n tr now where "e = Connection k rx ry c n tr now"
        | (old) p where "(k, p) \<in> set (players st)"
        by blast
      then show ?thesis
      proof cases
        case fresh
        then show ?thesis by (simp add: on_connection_def Let_def)
      next
        case old
        then have "k \<in> set (connected st)" using assms by (force simp: wf_state_def)
        then show ?thesis using False by (rule step_connected)
      qed
    qed
  qed
  from d i c show ?thesis by (simp add: wf_state_def)
qed

lemma wf_state_run: "wf_state st \<Longrightarrow> wf_state (fst (run st es))"
proof (induction es arbitrary: st)
  case Nil
  then show ?case by simp
next
  case (Cons e es)
  from Cons.IH [OF wf_state_step [OF Cons.prems, of e]] show ?case
    by (simp only: run_Cons_fst)
qed

lemma wf_init_state: "wf_state init_state"
  by (simp add: wf_state_def init_state_def)

section \<open>Properties of the codec\<close>

lemma js_trunc_close: "\<bar>real_of_int (js_trunc r) - r\<bar> < 1"
  unfolding js_trunc_def by (simp split: if_splits; linarith)

lemma js_trunc_bounds:
  assumes "- 32767 \<le> r" and "r \<le> 32767"
  shows "- 32767 \<le> js_trunc r \<and> js_trunc r \<le> 32767"
  using assms unfolding js_trunc_def by (auto simp: le_floor_iff ceiling_le_iff)

lemma clamp_sample_id:
  assumes "- 32767 \<le> r" and "r \<le> 32767"
  shows "Math_max (Fin (- 32768)) (Math_min (Fin 32767) (Fin r)) = Fin r"
  using assms by (simp add: Math_max_def Math_min_def)

lemma compress_sample_sint:
  assumes "- 1 \<le> s" and "s \<le> 1"
  shows "sint (compress_sample (Fin s)) = js_trunc (s * 32767)"
proof -
  have r: "- 32767 \<le> s * 32767" "s * 32767 \<le> 32767"
    using assms by simp_all
  have t: "- 32767 \<le> js_trunc (s * 32767)" "js_trunc (s * 32767) \<le> 32767"
    using js_trunc_bounds [OF r] by simp_all
  have "compress_sample (Fin s) = word_of_int (js_trunc (s * 32767))"
    unfolding compress_sample_def js_mul.simps clamp_sample_id [OF r] by simp
  moreover have "sint (word_of_int (js_trunc (s * 32767)) :: 16 word) = js_trunc (s * 32767)"
    using t by (simp add: sint_sbintrunc' signed_take_bit_int_eq_self)
  ultimately show ?thesis by simp
qed

subsection \<open>Rounding to a 32-bit float\<close>

lemma round_half_even_close: "\<bar>real_of_int (round_half_even y) - y\<bar> \<le> 1 / 2"
  unfolding round_half_even_def Let_def by (auto; linarith)

lemma f32_exp_search_upper: "f32_exp_search k a \<le> int k - 126"
  by (induction k) auto

lemma f32_exp_search_mono: "a \<le> b \<Longrightarrow> f32_exp_search k a \<le> f32_exp_search k b"
proof (induction k)
  case 0
  then show ?case by simp
next
  case (Suc k)
  then show ?case using f32_exp_search_upper [of k a] by auto
qed

lemma f32_exp_search_le_0: "a \<le> 1 \<Longrightarrow> f32_exp_search k a \<le> 0"
proof (induction k)
  case 0
  then show ?case by simp
next
  case (Suc k)
  have "int k - 125 \<le> 0" if "2 powi (int k - 125) \<le> a"
  proof (rule ccontr)
    assume "\<not> int k - 125 \<le> 0"
    then have "1 \<le> int k - 125" by simp
    then have "(2::real) powi 1 \<le> 2 powi (int k - 125)"
      by (intro power_int_increasing) simp_all
    with that Suc.prems show False by simp
  qed
  with Suc show ?case by auto
qed

lemma f32_exponent_eqI:
  assumes "2 powi e \<le> \<bar>r\<bar>" and "\<bar>r\<bar> < 2 powi (e + 1)" and "- 125 \<le> e" and "e \<le> 127"
  shows "f32_exponent r = e"
proof -
  have "f32_exp_search k \<bar>r\<bar> = e" if "e \<le> int k - 126" for k
    using that
  proof (induction k)
    case 0
    with assms(3) show ?case by simp
  next
    case (Suc k)
    show ?case
    proof (cases "int k - 125 = e")
      case True
      with assms(1) show ?thesis by simp
    next
      case False
      with Suc.prems have lt: "e + 1 \<le> int k - 125" by simp
      have "(2::real) powi (e + 1) \<le> 2 powi (int k - 125)"
        using lt by (intro power_int_increasing) simp_all
      with assms(2) have "\<not> 2 powi (int k - 125) \<le> \<bar>r\<bar>" by simp
      moreover have "e \<le> int k - 126" using lt by simp
      ultimately show ?thesis using Suc.IH by simp
    qed
  qed
  from this [of 253] assms(4) show ?thesis by (simp add: f32_exponent_def)
qed

text \<open>
  Why the rounding of the output keeps the error within one step. In units of the
  output's quantum \<open>1 / 2 ^ m\<close> the sample is an integer \<open>K\<close> and the result an integer
  \<open>D\<close>; truncation and rounding give \<open>32767 * \<bar>K - D\<bar> \<le> 2 ^ m + 16382\<close>, and since a
  power of two leaves a remainder of at most 16384 modulo 32767, the next multiple of
  32767 above \<open>2 ^ m\<close> is out of reach.
\<close>

lemma pow2_mod_32767: "(2::nat) ^ m mod 32767 \<le> 16384"
proof -
  have "(2::nat) ^ m = 2 ^ (15 * (m div 15) + m mod 15)" by simp
  also have "\<dots> = (2 ^ 15) ^ (m div 15) * 2 ^ (m mod 15)"
    by (simp only: power_add power_mult)
  finally have "(2::nat) ^ m = (2 ^ 15) ^ (m div 15) * 2 ^ (m mod 15)" .
  then have "(2::nat) ^ m mod 32767 = ((2 ^ 15) ^ (m div 15) mod 32767) * 2 ^ (m mod 15) mod 32767"
    by (simp add: mod_mult_left_eq)
  also have "((2::nat) ^ 15) ^ (m div 15) mod 32767 = 1"
  proof -
    have "((2::nat) ^ 15) ^ (m div 15) mod 32767 = ((2 ^ 15) mod 32767) ^ (m div 15) mod 32767"
      by (simp only: power_mod)
    then show ?thesis by simp
  qed
  finally have "(2::nat) ^ m mod 32767 = 2 ^ (m mod 15) mod 32767" by simp
  moreover have "(2::nat) ^ (m mod 15) \<le> 2 ^ 14"
    by (intro power_increasing) simp_all
  ultimately show ?thesis by simp
qed

lemma quantization_core:
  fixes K D t :: int and m :: nat
  assumes tr: "\<bar>32767 * K - t * 2 ^ m\<bar> < 2 ^ m"
    and rd: "\<bar>real_of_int D - real_of_int (t * 2 ^ m) / 32767\<bar> \<le> 1 / 2"
  shows "32767 * \<bar>K - D\<bar> \<le> 2 ^ m"
proof -
  let ?n = "(2::int) ^ m"
  have "\<bar>32767 * real_of_int D - real_of_int (t * ?n)\<bar> \<le> 32767 / 2"
    using rd by (simp add: field_simps abs_le_iff)
  then have "real_of_int \<bar>32767 * D - t * ?n\<bar> \<le> 32767 / 2" by simp
  then have d: "\<bar>32767 * D - t * ?n\<bar> \<le> 16383" by linarith
  define a where "a = 32767 * K - t * ?n"
  define b where "b = 32767 * D - t * ?n"
  have "32767 * \<bar>K - D\<bar> = \<bar>a - b\<bar>" by (simp add: a_def b_def abs_if)
  moreover have "\<bar>a\<bar> < ?n" "\<bar>b\<bar> \<le> 16383" using tr d by (simp_all add: a_def b_def)
  ultimately have w: "32767 * \<bar>K - D\<bar> \<le> ?n + 16382" by linarith
  have "int ((2::nat) ^ m mod 32767) \<le> 16384" using pow2_mod_32767 [of m] by linarith
  then have r: "?n mod 32767 \<le> 16384" by (simp add: zmod_int)
  have n: "?n = 32767 * (?n div 32767) + ?n mod 32767" by simp
  have "\<bar>K - D\<bar> \<le> ?n div 32767"
  proof (rule ccontr)
    assume "\<not> \<bar>K - D\<bar> \<le> ?n div 32767"
    then have "?n div 32767 + 1 \<le> \<bar>K - D\<bar>" by simp
    then have "32767 * (?n div 32767) + 32767 \<le> 32767 * \<bar>K - D\<bar>" by simp
    with w n r show False by linarith
  qed
  then have "32767 * \<bar>K - D\<bar> \<le> 32767 * (?n div 32767)" by simp
  also have "\<dots> \<le> ?n" using n by (smt (verit) pos_mod_sign)
  finally show ?thesis .
qed


lemma js_trunc_abs_le: "\<bar>real_of_int (js_trunc r)\<bar> \<le> \<bar>r\<bar>"
  unfolding js_trunc_def by (simp split: if_splits; linarith)

lemma f32_quantum_pos: "0 < f32_quantum r"
  by (simp add: f32_quantum_def)

lemma f32_exponent_mono: "\<bar>v\<bar> \<le> \<bar>s\<bar> \<Longrightarrow> f32_exponent v \<le> f32_exponent s"
  by (simp add: f32_exponent_def f32_exp_search_mono)

lemma f32_quantum_le:
  assumes "\<bar>v\<bar> \<le> \<bar>s\<bar>"
  shows "\<exists>j::nat. f32_quantum s = 2 ^ j * f32_quantum v"
proof -
  have "0 \<le> f32_exponent s - f32_exponent v"
    using f32_exponent_mono [OF assms] by simp
  then obtain j :: nat where j: "f32_exponent s - f32_exponent v = int j"
    by (rule nonneg_int_cases)
  then have "f32_exponent s - 23 = int j + (f32_exponent v - 23)" by simp
  then have "f32_quantum s = 2 powi (int j + (f32_exponent v - 23))"
    by (simp only: f32_quantum_def)
  also have "\<dots> = 2 powi (int j) * 2 powi (f32_exponent v - 23)"
    by (rule power_int_add) simp
  also have "\<dots> = 2 ^ j * f32_quantum v"
    by (simp only: power_int_of_nat f32_quantum_def)
  finally show ?thesis by blast
qed

lemma f32_quantum_inverse:
  assumes "\<bar>v\<bar> \<le> 1"
  shows "\<exists>m::nat. f32_quantum v = 1 / 2 ^ m"
proof -
  have "f32_exponent v \<le> 0"
    using assms by (simp add: f32_exponent_def f32_exp_search_le_0)
  then have "0 \<le> 23 - f32_exponent v" by simp
  then obtain m :: nat where m: "23 - f32_exponent v = int m"
    by (rule nonneg_int_cases)
  then have "f32_exponent v - 23 = - int m" by simp
  then have "f32_quantum v = 2 powi (- int m)" by (simp only: f32_quantum_def)
  also have "\<dots> = inverse (2 ^ m)" by (simp only: power_int_minus power_int_of_nat)
  also have "\<dots> = 1 / 2 ^ m" by (simp add: divide_inverse)
  finally show ?thesis by blast
qed

lemma roundtrip_sample:
  assumes f: "is_float32 s" and lo: "- 1 \<le> s" and hi: "s \<le> 1"
  shows "\<exists>d. decompress_sample (compress_sample (Fin s)) = Fin d \<and> \<bar>d - s\<bar> \<le> 1 / 32767"
proof -
  define t where "t = js_trunc (s * 32767)"
  define v where "v = real_of_int t / 32767"
  have sint: "sint (compress_sample (Fin s)) = t"
    unfolding t_def by (rule compress_sample_sint [OF lo hi])
  have "\<bar>real_of_int t\<bar> \<le> \<bar>s * 32767\<bar>" unfolding t_def by (rule js_trunc_abs_le)
  then have vs: "\<bar>v\<bar> \<le> \<bar>s\<bar>" by (simp add: v_def abs_mult)
  have v1: "\<bar>v\<bar> \<le> 1" using vs lo hi by linarith
  from f32_quantum_inverse [OF v1] obtain m :: nat where g: "f32_quantum v = 1 / 2 ^ m" by blast
  from f32_quantum_le [OF vs] obtain j :: nat where gs: "f32_quantum s = 2 ^ j * f32_quantum v"
    by blast
  have fs: "fround s = s"
    using f by (simp add: is_float32_def split: if_splits)
  define K where "K = round_half_even (s / f32_quantum s) * 2 ^ j"
  define D where "D = round_half_even (v / f32_quantum v)"
  have sK: "s = real_of_int K / 2 ^ m"
  proof -
    have "s = real_of_int (round_half_even (s / f32_quantum s)) * f32_quantum s"
      using fs by (simp add: fround_def)
    then show ?thesis by (simp add: K_def gs g)
  qed
  have dD: "fround v = real_of_int D / 2 ^ m"
    by (simp add: fround_def D_def g)
  have "\<bar>real_of_int t - s * 32767\<bar> < 1" unfolding t_def by (rule js_trunc_close)
  then have "\<bar>real_of_int t - real_of_int K / 2 ^ m * 32767\<bar> * 2 ^ m < 1 * 2 ^ m"
    unfolding sK [symmetric] by (intro mult_strict_right_mono) simp_all
  then have "\<bar>real_of_int t * 2 ^ m - real_of_int K * 32767\<bar> < 2 ^ m"
    by (simp add: abs_mult [symmetric] field_simps del: abs_mult)
  then have "real_of_int \<bar>32767 * K - t * 2 ^ m\<bar> < real_of_int (2 ^ m)"
    by (simp add: abs_minus_commute mult.commute)
  then have tr: "\<bar>32767 * K - t * 2 ^ m\<bar> < 2 ^ m" by (simp only: of_int_less_iff)
  have "v / f32_quantum v = v * 2 ^ m" by (simp add: g)
  also have "\<dots> = real_of_int (t * 2 ^ m) / 32767" unfolding v_def by simp
  finally have y: "v / f32_quantum v = real_of_int (t * 2 ^ m) / 32767" .
  have rd: "\<bar>real_of_int D - real_of_int (t * 2 ^ m) / 32767\<bar> \<le> 1 / 2"
    unfolding D_def y by (rule round_half_even_close)
  from quantization_core [OF tr rd] have "32767 * \<bar>K - D\<bar> \<le> 2 ^ m" .
  then have "real_of_int (32767 * \<bar>K - D\<bar>) \<le> real_of_int (2 ^ m)" by (simp only: of_int_le_iff)
  then have "32767 * \<bar>real_of_int D - real_of_int K\<bar> \<le> 2 ^ m"
    by (simp add: abs_minus_commute)
  then have "\<bar>real_of_int D - real_of_int K\<bar> / 2 ^ m \<le> 1 / 32767"
    by (simp add: field_simps)
  then have close: "\<bar>fround v - s\<bar> \<le> 1 / 32767"
    by (simp add: dD sK diff_divide_distrib [symmetric])
  then have "\<bar>fround v\<bar> \<le> 2" using lo hi by linarith
  then have "\<not> 2 ^ 128 \<le> \<bar>fround v\<bar>" by simp
  then have "decompress_sample (compress_sample (Fin s)) = Fin (fround v)"
    by (simp add: decompress_sample_def sint v_def)
  with close show ?thesis by blast
qed


text \<open>
  Claim C7. Round trip of the audio codec. The samples are elements of a
  \<open>Float32Array\<close>: for every array of float32 samples in \<open>[-1, 1]\<close>, decompressing the
  compressed array gives an array of the same length whose every element is a finite
  number within one quantization step \<open>1 / 32767\<close> of the original sample. Compression
  scales by 32767, clamps to \<open>[-32768, 32767]\<close> and stores into a 16-bit signed integer;
  decompression divides by 32767 and stores into a 32-bit float.
\<close>

theorem codec_roundtrip:
  assumes "\<forall>s \<in> set xs. is_float32 s \<and> - 1 \<le> s \<and> s \<le> 1"
  shows "list_all2 (\<lambda>s d. \<exists>r. d = Fin r \<and> \<bar>r - s\<bar> \<le> 1 / 32767)
           xs (decompressAudio (compressAudio (map Fin xs)))"
  using assms
proof (induction xs)
  case Nil
  then show ?case by (simp add: decompressAudio_def compressAudio_def)
next
  case (Cons s xs)
  then have "is_float32 s" "- 1 \<le> s" "s \<le> 1" by simp_all
  from roundtrip_sample [OF this]
  obtain d where "decompress_sample (compress_sample (Fin s)) = Fin d" "\<bar>d - s\<bar> \<le> 1 / 32767"
    by blast
  with Cons show ?case
    by (simp add: decompressAudio_def compressAudio_def)
qed

text \<open>
  The sample 5/8 is compressed to 20479 and comes back as 163837/262144, three eighths
  of a step below; the sample -1 comes back as itself.
\<close>

lemma f32_exponent_examples:
  "f32_exponent (5 / 8) = - 1" "f32_exponent (20479 / 32767) = - 1" "f32_exponent (- 1) = 0"
  by (rule f32_exponent_eqI; simp)+

lemma is_float32_examples: "is_float32 (5 / 8)" "is_float32 (- 1)"
  by (simp_all add: is_float32_def fround_def f32_quantum_def f32_exponent_examples
      round_half_even_def)

lemma roundtrip_examples:
  "decompress_sample (compress_sample (Fin (5 / 8))) = Fin (163837 / 262144)"
  "decompress_sample (compress_sample (Fin (- 1))) = Fin (- 1)"
  by (simp_all add: decompress_sample_def compress_sample_def js_trunc_def fround_def
      f32_quantum_def f32_exponent_examples round_half_even_def)

theorem codec_roundtrip_witness:
  "is_float32 (5 / 8) \<and> is_float32 (- 1)
   \<and> decompressAudio (compressAudio (map Fin [5 / 8, - 1])) = [Fin (163837 / 262144), Fin (- 1)]
   \<and> list_all2 (\<lambda>s d. \<exists>r. d = Fin r \<and> \<bar>r - s\<bar> \<le> 1 / 32767)
        [5 / 8, - 1] (decompressAudio (compressAudio (map Fin [5 / 8, - 1])))"
  using codec_roundtrip [of "[5 / 8, - 1]"]
  by (simp add: is_float32_examples roundtrip_examples decompressAudio_def compressAudio_def)

section \<open>The game loop: hits\<close>

text \<open>
  Against claim C1 as stated. Three tanks stand at (20, 20) and the first has shot. The
  next run of the game loop moves the bullet to (25, 20), inside the arena and within 20
  units of the two other tanks: both are damaged, and the destruction of the one bullet
  is broadcast twice.
\<close>

theorem first_hit_wins_counterexample:
  "snd (gameLoop (fst (run init_state three_tanks)))
   = [(ToAll, PlayerDamaged ''B'' 10), (ToAll, BulletDestroyed 0),
      (ToAll, PlayerDamaged ''C'' 10), (ToAll, BulletDestroyed 0)]"
  by (simp add: three_tanks_def run_defs)

text \<open>
  Claim C1, as the code has it. When a bullet's new position is inside the arena, the
  loop over the players does not stop at the first hit: for every player within the
  20-unit radius other than the owner, in the iteration order of the map, it emits one
  \<open>playerDamaged\<close> of magnitude 10 followed by one \<open>bulletDestroyed\<close> for the bullet,
  and the bullet leaves the map if there is any such player. So exactly one of each is
  emitted when exactly one such player is in range. The events of a whole run of the
  game loop are those of its bullets, one bullet after the other.
\<close>

theorem tick_hits_all_in_range:
  assumes "\<not> out_of_bounds (advance bullet)"
  shows "tick_bullet (players st) bid bullet =
           (if victims (advance bullet) (players st) = [] then Some (advance bullet) else None,
            damage_events bid (victims (advance bullet) (players st)))
       \<and> snd (gameLoop st) =
           concat (map (\<lambda>kb. snd (tick_bullet (players st) (fst kb) (snd kb))) (bullets st))"
  using assms by (simp add: tick_bullet_def collide_eq Let_def gameLoop_out)

theorem tick_hits_all_in_range_witness:
  "\<not> out_of_bounds (advance \<lparr>b_id = 0, b_playerId = ''A'', b_x = Fin 20, b_y = Fin 20,
        b_angle = Num (Fin 0), b_speed = Fin 300, b_createdAt = 2000\<rparr>)
   \<and> tick_bullet (players (fst (run init_state two_tanks))) 0
        \<lparr>b_id = 0, b_playerId = ''A'', b_x = Fin 20, b_y = Fin 20,
         b_angle = Num (Fin 0), b_speed = Fin 300, b_createdAt = 2000\<rparr>
      = (None, [(ToAll, PlayerDamaged ''B'' 10), (ToAll, BulletDestroyed 0)])"
  using tick_hits_all_in_range [of "\<lparr>b_id = 0, b_playerId = ''A'', b_x = Fin 20, b_y = Fin 20,
        b_angle = Num (Fin 0), b_speed = Fin 300, b_createdAt = 2000\<rparr>"
      "fst (run init_state two_tanks)" 0]
  by (simp add: two_tanks_def run_defs victims_def damage_events_def)

section \<open>The expiry timer of a bullet\<close>

text \<open>
  Against claim C2 as stated. A tank at the right edge shoots to the right. The game
  loop moves the bullet to x = 805, out of bounds, and broadcasts its destruction; the
  timer then fires and broadcasts it a second time.
\<close>

theorem double_destroy_counterexample:
  "count_list
     (snd (run init_state (at_right_edge @ [PlayerShoot ''A'' 2000, GameLoop, BulletTimeout 0])))
     (ToAll, BulletDestroyed 0) = 2"
  by (simp add: at_right_edge_def run_defs)

lemma step_timers:
  "bid \<in> set (timers st) \<Longrightarrow> e \<noteq> BulletTimeout bid \<Longrightarrow> bid \<in> set (timers (fst (step st e)))"
  by (cases e)
    (auto simp: handler_defs gameLoop_def Let_def
      split: option.splits prod.splits jsval.splits if_splits)

lemma step_arms_timer:
  "(ToAll, BulletCreated b) \<in> set (snd (step st e)) \<Longrightarrow> b_id b \<in> set (timers (fst (step st e)))"
proof (cases e)
  case GameLoop
  assume "(ToAll, BulletCreated b) \<in> set (snd (step st e))"
  with GameLoop show ?thesis
    by (auto simp: gameLoop_out tick_bullet_def collide_eq damage_events_def Let_def
        split: if_splits)
next
  case (Cleanup now)
  assume "(ToAll, BulletCreated b) \<in> set (snd (step st e))"
  with Cleanup show ?thesis
    by (auto simp: cleanup_def cleanup_loop_eq split: prod.splits)
qed (auto simp: on_connection_def on_upgrade_def on_playerMove_def on_playerShoot_def
      on_audioStream_def on_audioStateChanged_def on_disconnect_def on_bulletTimeout_def
      Let_def dest: relay_loop_aud
      split: option.splits prod.splits jsval.splits if_splits)

text \<open>
  Claim C2, as the code has it. The expiry timer that an accepted shot arms is never
  cancelled: every event that broadcasts \<open>bulletCreated\<close> leaves the bullet's timer
  pending, a pending timer stays pending through every event other than its own firing,
  and when it fires it broadcasts \<open>bulletDestroyed\<close> for the bullet's identity, whether
  or not the bullet is still in the map. A bullet destroyed early by bounds or collision
  therefore gets a further destruction broadcast from its timer.
\<close>

theorem expiry_timer_never_cancelled:
  "(\<forall>b. (ToAll, BulletCreated b) \<in> set (snd (step st e)) \<longrightarrow>
         b_id b \<in> set (timers (fst (step st e))))
   \<and> (bid \<in> set (timers st) \<longrightarrow>
        (e \<noteq> BulletTimeout bid \<longrightarrow> bid \<in> set (timers (fst (step st e)))) \<and>
        snd (step st (BulletTimeout bid)) = [(ToAll, BulletDestroyed bid)])"
  by (auto simp: step_timers step_arms_timer on_bulletTimeout_def)

theorem expiry_timer_never_cancelled_witness:
  "(ToAll, BulletCreated \<lparr>b_id = 0, b_playerId = ''A'', b_x = Fin 800, b_y = Fin 300,
       b_angle = Num (Fin 0), b_speed = Fin 300, b_createdAt = 2000\<rparr>)
     \<in> set (snd (step (fst (run init_state at_right_edge)) (PlayerShoot ''A'' 2000)))
   \<and> 0 \<in> set (timers (fst (run init_state (at_right_edge @ [PlayerShoot ''A'' 2000]))))
   \<and> 0 \<in> set (timers (fst (step (fst (run init_state (at_right_edge @ [PlayerShoot ''A'' 2000])))
                GameLoop)))
   \<and> bullets (fst (step (fst (run init_state (at_right_edge @ [PlayerShoot ''A'' 2000])))
                GameLoop)) = []
   \<and> snd (step (fst (run init_state (at_right_edge @ [PlayerShoot ''A'' 2000])))
           (BulletTimeout 0)) = [(ToAll, BulletDestroyed 0)]"
  using expiry_timer_never_cancelled
    [of "fst (run init_state (at_right_edge @ [PlayerShoot ''A'' 2000]))" GameLoop 0]
  by (simp add: at_right_edge_def run_defs)

section \<open>Movement\<close>

text \<open>
  Claim C3 at the input \<open>{x: 800, y: 600, angle: 0}\<close>. The handler clamps with
  \<open>Math.min(800, x)\<close> and \<open>Math.min(600, y)\<close>: the player is put on the arena's edge at
  (800, 600), and that position is broadcast. The claim's inner bounds end at 780 and
  580, as the spawn position and the client's own clamp do.
\<close>

theorem move_to_upper_edge:
  "snd (on_playerMove (fst (run init_state two_tanks)) ''A''
          (Some \<lparr>m_x = Num (Fin 800), m_y = Num (Fin 600), m_angle = Num (Fin 0)\<rparr>) 1500)
   = [(Broadcast ''A'', PlayerMoved ''A'' (Fin 800) (Fin 600) (Num (Fin 0)))]
   \<and> map_of (players (fst (on_playerMove (fst (run init_state two_tanks)) ''A''
          (Some \<lparr>m_x = Num (Fin 800), m_y = Num (Fin 600), m_angle = Num (Fin 0)\<rparr>) 1500))) ''A''
     = Some ((newPlayer ''A'' 0 0 ''red'' ''Tank1'' ''websocket'' 1000)
           \<lparr>p_x := Fin 800, p_y := Fin 600, p_lastActivity := Some 1500\<rparr>)"
  by (simp add: two_tanks_def run_defs)

text \<open>What the clamp of the handler does give: a number other than \<open>NaN\<close> lands in \<open>[20, hi]\<close>.\<close>

lemma clamp_range:
  assumes "a \<noteq> NaN" and "20 \<le> hi"
  shows "\<exists>r. Math_max (Fin 20) (Math_min (Fin hi) a) = Fin r \<and> 20 \<le> r \<and> r \<le> hi"
  using assms by (cases a) (auto simp: Math_max_def Math_min_def)

text \<open>
  Against claim C4 as stated. A number too large for a double, such as \<open>1e999\<close>, is
  decoded from the message as \<open>Infinity\<close>, which has type number and passes the test
  \<open>typeof data.x === 'number'\<close>: the move is accepted, the player is put at x = 800,
  \<open>lastActivity\<close> is stamped and \<open>playerMoved\<close> is broadcast. (A \<open>NaN\<close> does not survive
  the JSON encoding of the transport: it arrives as \<open>null\<close>, which the test refuses.)
\<close>

theorem infinite_move_counterexample:
  "snd (on_playerMove (fst (run init_state two_tanks)) ''A''
          (Some \<lparr>m_x = Num PInf, m_y = Num (Fin 300), m_angle = Num (Fin 0)\<rparr>) 1500)
   = [(Broadcast ''A'', PlayerMoved ''A'' (Fin 800) (Fin 300) (Num (Fin 0)))]
   \<and> map_of (players (fst (on_playerMove (fst (run init_state two_tanks)) ''A''
          (Some \<lparr>m_x = Num PInf, m_y = Num (Fin 300), m_angle = Num (Fin 0)\<rparr>) 1500))) ''A''
     = Some ((newPlayer ''A'' 0 0 ''red'' ''Tank1'' ''websocket'' 1000)
           \<lparr>p_x := Fin 800, p_y := Fin 300, p_lastActivity := Some 1500\<rparr>)"
  by (simp add: two_tanks_def run_defs Math_max_def Math_min_def)

text \<open>
  Claim C4, as the code has it. A \<open>playerMove\<close> message whose argument is missing, or
  whose \<open>x\<close> or \<open>y\<close> is not of type number (a wrong type, a missing field, or the
  \<open>null\<close> that a \<open>NaN\<close> arrives as), is ignored: the state is unchanged and nothing is
  emitted, to the sender or to anyone else.
\<close>

theorem malformed_move_ignored:
  assumes "data = None \<or> (\<exists>d. data = Some d \<and> (\<not> is_number (m_x d) \<or> \<not> is_number (m_y d)))"
  shows "on_playerMove st sid data now = (st, [])"
  using assms by (auto simp: on_playerMove_def split: option.splits)

theorem malformed_move_ignored_witness:
  "on_playerMove (fst (run init_state two_tanks)) ''A''
      (Some \<lparr>m_x = Null, m_y = Num (Fin 300), m_angle = Num (Fin 0)\<rparr>) 1500
   = (fst (run init_state two_tanks), [])"
  using malformed_move_ignored
    [of "Some \<lparr>m_x = Null, m_y = Num (Fin 300), m_angle = Num (Fin 0)\<rparr>"
      "fst (run init_state two_tanks)" "''A''" 1500]
  by simp

section \<open>Health\<close>

lemma health_step:
  assumes "\<forall>kp \<in> set (players st). p_health (snd kp) = 100"
  shows "\<forall>kp \<in> set (players (fst (step st e))). p_health (snd kp) = 100"
proof
  fix kp assume "kp \<in> set (players (fst (step st e)))"
  then have "(fst kp, snd kp) \<in> set (players (fst (step st e)))" by simp
  from step_players [OF this] show "p_health (snd kp) = 100"
    using assms by (fastforce simp: newPlayer_def audio_timeout_def)
qed

lemma health_run:
  "\<forall>kp \<in> set (players st). p_health (snd kp) = 100 \<Longrightarrow>
   \<forall>kp \<in> set (players (fst (run st es))). p_health (snd kp) = 100"
proof (induction es arbitrary: st)
  case Nil
  then show ?case by simp
next
  case (Cons e es)
  from Cons.IH [OF health_step [OF Cons.prems, of e]] show ?case
    by (simp only: run_Cons_fst)
qed

text \<open>
  Claim C9. After any sequence of events from the start of the server, every player in
  the map has health 100: no handler and no periodic task writes the field. The game
  loop, which broadcasts \<open>playerDamaged\<close>, leaves the player map as it is.
\<close>

theorem health_stays_100:
  "(\<forall>kp \<in> set (players (fst (run init_state es))). p_health (snd kp) = 100)
   \<and> players (fst (gameLoop st)) = players st"
  using health_run [of init_state es] by (simp add: init_state_def)

theorem health_stays_100_witness:
  "map fst (players (fst (run init_state (three_tanks @ [GameLoop])))) = [''A'', ''B'', ''C'']
   \<and> map (\<lambda>kp. p_health (snd kp)) (players (fst (run init_state (three_tanks @ [GameLoop]))))
       = [100, 100, 100]
   \<and> players (fst (gameLoop (fst (run init_state three_tanks))))
       = players (fst (run init_state three_tanks))"
  using health_stays_100 [of "three_tanks @ [GameLoop]" "fst (run init_state three_tanks)"]
  by (simp add: three_tanks_def run_defs)

section \<open>Disconnection\<close>

lemma absent_step:
  assumes "sid \<notin> fst ` set (players st)" and "\<not> is_connection sid e"
  shows "sid \<notin> fst ` set (players (fst (step st e)))"
proof
  assume "sid \<in> fst ` set (players (fst (step st e)))"
  then obtain p' where "(sid, p') \<in> set (players (fst (step st e)))" by auto
  from step_players [OF this] assms show False by force
qed

lemma absent_run:
  assumes "sid \<notin> fst ` set (players st)" and "\<forall>e \<in> set es. \<not> is_connection sid e"
  shows "(ToAll, PlayerLeft sid) \<notin> set (snd (run st es))"
  using assms
proof (induction es arbitrary: st)
  case Nil
  then show ?case by simp
next
  case (Cons e es)
  have 1: "(ToAll, PlayerLeft sid) \<notin> set (snd (step st e))"
    using step_emits_left [of sid st e] Cons.prems(1) by force
  have "sid \<notin> fst ` set (players (fst (step st e)))"
    using Cons.prems by (intro absent_step) simp_all
  then have 2: "(ToAll, PlayerLeft sid) \<notin> set (snd (run (fst (step st e)) es))"
    using Cons.prems(2) by (intro Cons.IH) simp_all
  from 1 2 show ?case by (simp only: run_Cons_snd set_append Un_iff) simp
qed

text \<open>
  Claim C8, as the code has it. Every run of the disconnect handler emits exactly one
  \<open>playerLeft\<close> with the socket's identity to all other connections, whether or not the
  player is still in the map, and leaves the identity out of the map; on the state the
  handler is idempotent. After a disconnect, as long as the identity does not connect
  again, no cleanup emits \<open>playerLeft\<close> for it.
\<close>

theorem disconnect_effect:
  "snd (on_disconnect st sid) = [(Broadcast sid, PlayerLeft sid)]
   \<and> map_of (players (fst (on_disconnect st sid))) sid = None
   \<and> fst (on_disconnect (fst (on_disconnect st sid)) sid) = fst (on_disconnect st sid)
   \<and> ((\<forall>e \<in> set es. \<not> is_connection sid e) \<longrightarrow>
        (ToAll, PlayerLeft sid) \<notin> set (snd (run (fst (on_disconnect st sid)) es)))"
proof -
  have a: "sid \<notin> fst ` set (players (fst (on_disconnect st sid)))"
    by (auto simp: on_disconnect_def set_map_delete)
  have "map_delete sid (map_delete sid (players st)) = map_delete sid (players st)"
    by (simp add: map_delete_def)
  then have i: "fst (on_disconnect (fst (on_disconnect st sid)) sid) = fst (on_disconnect st sid)"
    by (simp add: on_disconnect_def)
  show ?thesis using a i absent_run [OF a, of es]
    by (simp add: on_disconnect_def map_of_map_delete)
qed

theorem disconnect_effect_witness:
  "\<not> is_connection ''A'' (Cleanup 700000) \<and> \<not> is_connection ''A'' GameLoop
   \<and> \<not> is_connection ''A'' (Cleanup 900000)
   \<and> snd (on_disconnect (fst (run init_state two_tanks)) ''A'') = [(Broadcast ''A'', PlayerLeft ''A'')]
   \<and> map fst (players (fst (on_disconnect (fst (run init_state two_tanks)) ''A''))) = [''B'']
   \<and> (ToAll, PlayerLeft ''A'') \<notin> set (snd (run (fst (on_disconnect (fst (run init_state two_tanks)) ''A''))
        [Cleanup 700000, GameLoop, Cleanup 900000]))"
  using disconnect_effect [of "fst (run init_state two_tanks)" "''A''" "[Cleanup 700000, GameLoop, Cleanup 900000]"]
  by (simp add: two_tanks_def run_defs)

text \<open>
  Against claim C8 as stated. The handler emits without looking at the map: run twice
  for the same socket it sends \<open>playerLeft\<close> twice; and when the cleanup has evicted an
  inactive player, with \<open>playerLeft\<close> sent to all, the later disconnect of its socket
  sends \<open>playerLeft\<close> for the same identity once more.
\<close>

theorem repeated_disconnect_counterexample:
  "count_list (snd (run init_state (two_tanks @ [Disconnect ''A'', Disconnect ''A''])))
     (Broadcast ''A'', PlayerLeft ''A'') = 2
   \<and> snd (run (fst (run init_state two_tanks))
       [PlayerMove ''A'' (Some \<lparr>m_x = Num (Fin 100), m_y = Num (Fin 100), m_angle = Num (Fin 0)\<rparr>) 2000,
        Cleanup 700000, Disconnect ''A''])
     = [(Broadcast ''A'', PlayerMoved ''A'' (Fin 100) (Fin 100) (Num (Fin 0))),
        (ToAll, PlayerLeft ''A''), (Broadcast ''A'', PlayerLeft ''A'')]"
  by (simp add: two_tanks_def run_defs)

section \<open>Inactivity\<close>

lemma never_active_step:
  assumes "\<forall>p. (sid, p) \<in> set (players st) \<longrightarrow> p_lastActivity p = None"
    and "\<not> accepted_move sid st e"
  shows "\<forall>p. (sid, p) \<in> set (players (fst (step st e))) \<longrightarrow> p_lastActivity p = None"
proof (intro allI impI)
  fix p' assume "(sid, p') \<in> set (players (fst (step st e)))"
  from step_players [OF this] show "p_lastActivity p' = None"
    using assms
    by (elim disjE exE conjE)
      (auto simp: newPlayer_def audio_timeout_def map_of_eq_None_iff image_iff)
qed

lemma present_step:
  assumes "(sid, p) \<in> set (players st)" and "e \<noteq> Disconnect sid"
    and "\<forall>now. e = Cleanup now \<longrightarrow> \<not> inactive p now"
  shows "sid \<in> fst ` set (players (fst (step st e)))"
proof -
  have k: "sid \<in> fst ` set (players st)" using assms(1) by force
  show ?thesis
  proof (cases e)
    case (Cleanup now)
    have "(sid, audio_timeout now p)
            \<in> (\<lambda>kp. (fst kp, audio_timeout now (snd kp))) ` set (players st)"
      using assms(1) by force
    with Cleanup assms(3)
    have "(sid, audio_timeout now p) \<in> set (players (fst (step st e)))"
      by (simp add: cleanup_def cleanup_loop_eq split: prod.splits)
    then show ?thesis by force
  next
    case (Disconnect s)
    with assms show ?thesis by (force simp: on_disconnect_def set_map_delete)
  qed (use k in \<open>auto simp: handler_defs gameLoop_def Let_def keys_map_set
      split: option.splits prod.splits jsval.splits if_splits\<close>)
qed

lemma never_active_run:
  assumes "\<forall>p. (sid, p) \<in> set (players st) \<longrightarrow> p_lastActivity p = None"
    and "no_accepted_move sid st es"
  shows "(ToAll, PlayerLeft sid) \<notin> set (snd (run st es))
       \<and> (\<forall>p. (sid, p) \<in> set (players (fst (run st es))) \<longrightarrow> p_lastActivity p = None)
       \<and> (sid \<in> fst ` set (players st) \<longrightarrow> Disconnect sid \<notin> set es \<longrightarrow>
            sid \<in> fst ` set (players (fst (run st es))))"
  using assms
proof (induction es arbitrary: st)
  case Nil
  then show ?case by simp
next
  case (Cons e es)
  let ?st = "fst (step st e)"
  have na: "\<not> accepted_move sid st e" and rest: "no_accepted_move sid ?st es"
    using Cons.prems(2) by simp_all
  have inv: "\<forall>p. (sid, p) \<in> set (players ?st) \<longrightarrow> p_lastActivity p = None"
    using never_active_step [OF Cons.prems(1) na] .
  note ih = Cons.IH [OF inv rest]
  have 1: "(ToAll, PlayerLeft sid) \<notin> set (snd (step st e))"
    using step_emits_left [of sid st e] Cons.prems(1) by (auto simp: inactive_def)
  have 3: "sid \<in> fst ` set (players ?st)"
    if "sid \<in> fst ` set (players st)" "Disconnect sid \<noteq> e"
  proof -
    from that obtain p where p: "(sid, p) \<in> set (players st)" by auto
    then have "p_lastActivity p = None" using Cons.prems(1) by simp
    then have "\<forall>now. \<not> inactive p now" by (simp add: inactive_def)
    with p that show ?thesis by (intro present_step [of sid p]) auto
  qed
  from 1 ih 3 show ?case
    by (simp only: run_Cons_snd run_Cons_fst set_append Un_iff) auto
qed

text \<open>
  Claim C10. A player is created without \<open>lastActivity\<close>. From the state after its
  connection, through any events among which no \<open>playerMove\<close> of its socket is accepted
  (shots, audio, other sockets' events and all periodic tasks included), no cleanup emits
  \<open>playerLeft\<close> for it, and unless its socket disconnects the player is still in the map,
  still without \<open>lastActivity\<close>, however late the clock of the cleanups.
\<close>

theorem never_moved_never_evicted:
  assumes "st1 = fst (run init_state (es0 @ [Connection sid rx ry color name transport t0]))"
    and "no_accepted_move sid st1 es"
  shows "(ToAll, PlayerLeft sid) \<notin> set (snd (run st1 es))
       \<and> (Disconnect sid \<notin> set es \<longrightarrow>
            (\<exists>p. map_of (players (fst (run st1 es))) sid = Some p \<and> p_lastActivity p = None))"
proof -
  let ?np = "newPlayer sid rx ry color name transport t0"
  let ?st0 = "fst (run init_state es0)"
  have st1: "st1 = fst (on_connection ?st0 sid rx ry color name transport t0)"
    using assms(1) by (simp add: run_append)
  have "wf_state st1"
    unfolding assms(1) by (rule wf_state_run [OF wf_init_state])
  then have d: "distinct (map fst (players st1))" by (simp add: wf_state_def)
  have m: "map_of (players st1) sid = Some ?np"
    by (simp add: st1 on_connection_def Let_def map_of_map_set)
  have inv: "\<forall>p. (sid, p) \<in> set (players st1) \<longrightarrow> p_lastActivity p = None"
  proof (intro allI impI)
    fix p assume "(sid, p) \<in> set (players st1)"
    with d have "map_of (players st1) sid = Some p" by (rule map_of_is_SomeI)
    with m show "p_lastActivity p = None" by (simp add: newPlayer_def)
  qed
  have k: "sid \<in> fst ` set (players st1)"
    using m by (metis map_of_eq_None_iff option.distinct(1))
  note r = never_active_run [OF inv assms(2)]
  show ?thesis
  proof (intro conjI impI)
    show "(ToAll, PlayerLeft sid) \<notin> set (snd (run st1 es))" using r by simp
  next
    assume "Disconnect sid \<notin> set es"
    with r k have "sid \<in> fst ` set (players (fst (run st1 es)))" by simp
    then obtain p where "map_of (players (fst (run st1 es))) sid = Some p"
      by (metis map_of_eq_None_iff not_None_eq)
    moreover from this have "(sid, p) \<in> set (players (fst (run st1 es)))"
      by (rule map_of_SomeD)
    ultimately show "\<exists>p. map_of (players (fst (run st1 es))) sid = Some p \<and> p_lastActivity p = None"
      using r by blast
  qed
qed

theorem never_moved_never_evicted_witness:
  "no_accepted_move ''A''
     (fst (run init_state ([] @ [Connection ''A'' 0 0 ''red'' ''Tank1'' ''websocket'' 1000])))
     [PlayerShoot ''A'' 2000,
      PlayerMove ''A'' (Some \<lparr>m_x = Undefined, m_y = Num (Fin 5), m_angle = Null\<rparr>) 3000,
      Cleanup 900000000]
   \<and> (ToAll, PlayerLeft ''A'') \<notin> set (snd (run
        (fst (run init_state ([] @ [Connection ''A'' 0 0 ''red'' ''Tank1'' ''websocket'' 1000])))
        [PlayerShoot ''A'' 2000,
         PlayerMove ''A'' (Some \<lparr>m_x = Undefined, m_y = Num (Fin 5), m_angle = Null\<rparr>) 3000,
         Cleanup 900000000]))
   \<and> map fst (players (fst (run
        (fst (run init_state ([] @ [Connection ''A'' 0 0 ''red'' ''Tank1'' ''websocket'' 1000])))
        [PlayerShoot ''A'' 2000,
         PlayerMove ''A'' (Some \<lparr>m_x = Undefined, m_y = Num (Fin 5), m_angle = Null\<rparr>) 3000,
         Cleanup 900000000]))) = [''A'']"
  using never_moved_never_evicted
    [of "fst (run init_state ([] @ [Connection ''A'' 0 0 ''red'' ''Tank1'' ''websocket'' 1000]))"
      "[]" "''A''" 0 0 "''red''" "''Tank1''" "''websocket''" 1000
      "[PlayerShoot ''A'' 2000,
        PlayerMove ''A'' (Some \<lparr>m_x = Undefined, m_y = Num (Fin 5), m_angle = Null\<rparr>) 3000,
        Cleanup 900000000]"]
  by (simp add: run_defs cleanup_loop_eq)

section \<open>Shooting\<close>

lemma relay_loop_msg: "(a, m) \<in> set (relay_loop sid msg ns) \<Longrightarrow> m = msg"
  by (induction ns) (auto split: if_splits)

lemma step_creates_message:
  assumes "(a, BulletCreated b) \<in> set (snd (step st e))"
  shows "\<exists>t p. e = PlayerShoot (b_playerId b) t \<and> map_of (players st) (b_playerId b) = Some p \<and>
           may_shoot p t"
proof (cases e)
  case GameLoop
  with assms show ?thesis
    by (auto simp: gameLoop_out tick_bullet_def collide_eq damage_events_def Let_def
        split: if_splits)
next
  case (Cleanup now)
  with assms show ?thesis
    by (auto simp: cleanup_def cleanup_loop_eq split: prod.splits)
next
  case (PlayerShoot s t)
  with assms show ?thesis
    by (auto simp: on_playerShoot_def Let_def split: option.splits if_splits)
next
  case (AudioStreamIn s f now)
  with assms show ?thesis
    by (auto simp: on_audioStream_def Let_def dest: relay_loop_msg
        split: option.splits if_splits)
qed (use assms in \<open>auto simp: on_connection_def on_upgrade_def on_playerMove_def
      on_audioStateChanged_def on_disconnect_def on_bulletTimeout_def Let_def
      split: option.splits jsval.splits if_splits\<close>)

lemma bulletCreated_byE:
  assumes "bulletCreated_by sid am"
  obtains a b where "am = (a, BulletCreated b)" "b_playerId b = sid"
  using assms by (cases am; cases "snd am") auto

lemma step_creates:
  assumes "bulletCreated_by sid am" and "am \<in> set (snd (step st e))"
  shows "\<exists>t p. e = PlayerShoot sid t \<and> map_of (players st) sid = Some p \<and> may_shoot p t"
proof -
  from assms(1) obtain a b where am: "am = (a, BulletCreated b)" "b_playerId b = sid"
    by (rule bulletCreated_byE)
  from step_creates_message [of a b st e] assms(2) am show ?thesis by simp
qed

lemma shoot_accepted:
  assumes "map_of (players st) sid = Some p" and "may_shoot p t"
  shows "\<exists>st' b. on_playerShoot st sid t = (st', [(ToAll, BulletCreated b)]) \<and>
           b_playerId b = sid \<and> b_x b = p_x p \<and> b_y b = p_y p \<and> b_angle b = p_angle p \<and>
           b_speed b = Fin 300 \<and> map_of (bullets st') (b_id b) = Some b \<and>
           map_of (players st') sid = Some (p\<lparr>p_lastShoot := Some t\<rparr>) \<and>
           players st' = map_set sid (p\<lparr>p_lastShoot := Some t\<rparr>) (players st)"
  using assms by (simp add: on_playerShoot_def Let_def map_of_map_set)

lemma blocked_step:
  assumes inv: "\<forall>p. (sid, p) \<in> set (players st) \<longrightarrow> p_lastShoot p = Some t"
    and t: "0 < t1" "t1 \<le> t" and w: "in_window sid t1 e"
  shows "filter (bulletCreated_by sid) (snd (step st e)) = []
       \<and> (\<forall>p. (sid, p) \<in> set (players (fst (step st e))) \<longrightarrow> p_lastShoot p = Some t)"
proof -
  have no: "\<not> may_shoot p t'" if "(sid, p) \<in> set (players st)" "e = PlayerShoot sid t'" for p t'
  proof -
    from that inv have "p_lastShoot p = Some t" by simp
    moreover from w that have "t' < t1 + 200" by simp
    ultimately show ?thesis using t by (simp add: may_shoot_def)
  qed
  have 1: "filter (bulletCreated_by sid) (snd (step st e)) = []"
  proof (rule ccontr)
    assume "filter (bulletCreated_by sid) (snd (step st e)) \<noteq> []"
    then obtain am where "am \<in> set (snd (step st e))" "bulletCreated_by sid am"
      by (auto simp: filter_empty_conv)
    from step_creates [OF this(2,1)] obtain t' p where
      "e = PlayerShoot sid t'" "map_of (players st) sid = Some p" "may_shoot p t'" by blast
    with no [of p t'] show False by (auto dest: map_of_SomeD)
  qed
  have 2: "\<forall>p. (sid, p) \<in> set (players (fst (step st e))) \<longrightarrow> p_lastShoot p = Some t"
  proof (intro allI impI)
    fix p' assume "(sid, p') \<in> set (players (fst (step st e)))"
    from step_players [OF this] show "p_lastShoot p' = Some t"
      using inv w no by (elim disjE exE conjE) (auto simp: audio_timeout_def)
  qed
  from 1 2 show ?thesis by simp
qed

lemma blocked_run:
  assumes "\<forall>p. (sid, p) \<in> set (players st) \<longrightarrow> p_lastShoot p = Some t"
    and "0 < t1" "t1 \<le> t" and "\<forall>e \<in> set es. in_window sid t1 e"
  shows "filter (bulletCreated_by sid) (snd (run st es)) = []"
  using assms
proof (induction es arbitrary: st)
  case Nil
  then show ?case by simp
next
  case (Cons e es)
  have w: "in_window sid t1 e" using Cons.prems(4) by simp
  note b = blocked_step [OF Cons.prems(1,2,3) w]
  have "filter (bulletCreated_by sid) (snd (run (fst (step st e)) es)) = []"
    using b Cons.prems(2,3,4) by (intro Cons.IH) simp_all
  with b show ?case unfolding run_Cons_snd by simp
qed

lemma window_run:
  assumes "distinct (map fst (players st))" and "0 < t1" and "\<forall>e \<in> set es. in_window sid t1 e"
  shows "length (filter (bulletCreated_by sid) (snd (run st es))) \<le> 1"
  using assms
proof (induction es arbitrary: st)
  case Nil
  then show ?case by simp
next
  case (Cons e es)
  let ?st = "fst (step st e)"
  have d: "distinct (map fst (players ?st))" using Cons.prems(1) by (rule step_distinct)
  have rest: "\<forall>e \<in> set es. in_window sid t1 e" using Cons.prems(3) by simp
  show ?case
  proof (cases "filter (bulletCreated_by sid) (snd (step st e)) = []")
    case True
    with Cons.IH [OF d Cons.prems(2) rest] show ?thesis unfolding run_Cons_snd by simp
  next
    case False
    then obtain am where "am \<in> set (snd (step st e))" "bulletCreated_by sid am"
      by (auto simp: filter_empty_conv)
    from step_creates [OF this(2,1)] obtain t p where
      e: "e = PlayerShoot sid t" and p: "map_of (players st) sid = Some p" "may_shoot p t"
      by blast
    from shoot_accepted [OF p] obtain st' b where
      s: "on_playerShoot st sid t = (st', [(ToAll, BulletCreated b)])"
      and pl: "players st' = map_set sid (p\<lparr>p_lastShoot := Some t\<rparr>) (players st)"
      by blast
    have st': "?st = st'" by (simp add: e s)
    have inv: "\<forall>q. (sid, q) \<in> set (players ?st) \<longrightarrow> p_lastShoot q = Some t"
    proof (intro allI impI)
      fix q assume "(sid, q) \<in> set (players ?st)"
      with d have "map_of (players ?st) sid = Some q" by (rule map_of_is_SomeI)
      then show "p_lastShoot q = Some t" by (auto simp: st' pl map_of_map_set)
    qed
    have "t1 \<le> t" using Cons.prems(3) e by simp
    with inv Cons.prems(2) rest
    have "filter (bulletCreated_by sid) (snd (run ?st es)) = []"
      by (intro blocked_run [of sid _ t t1]) simp_all
    then show ?thesis unfolding run_Cons_snd by (simp add: e s)
  qed
qed

text \<open>
  Claim C5. From a reachable state, take any events of a window of 200 ms: the shoot
  requests of one socket in it are fewer than 200 ms apart from each other, whatever
  else happens in between. All of them together broadcast at most one \<open>bulletCreated\<close>
  for a bullet of that socket. An accepted shot broadcasts one bullet owned by the
  socket, with the shooter's position and angle and speed 300, stores it under its
  identity, and stamps the shooter's \<open>lastShoot\<close>. The clock is taken to read a positive
  time: a stored time 0 is what \<open>!player.lastShoot\<close> takes for no shot at all.
\<close>

theorem shoot_rate_limit:
  assumes "st = fst (run init_state es0)" and "0 < t1" and "\<forall>e \<in> set es. in_window sid t1 e"
  shows "length (filter (bulletCreated_by sid) (snd (run st es))) \<le> 1
       \<and> (\<forall>p t. map_of (players st) sid = Some p \<longrightarrow> may_shoot p t \<longrightarrow>
            (\<exists>st' b. on_playerShoot st sid t = (st', [(ToAll, BulletCreated b)]) \<and>
               b_playerId b = sid \<and> b_x b = p_x p \<and> b_y b = p_y p \<and> b_angle b = p_angle p \<and>
               b_speed b = Fin 300 \<and> map_of (bullets st') (b_id b) = Some b \<and>
               map_of (players st') sid = Some (p\<lparr>p_lastShoot := Some t\<rparr>)))"
proof (intro conjI allI impI)
  have "wf_state st" unfolding assms(1) by (rule wf_state_run [OF wf_init_state])
  then have "distinct (map fst (players st))" by (simp add: wf_state_def)
  then show "length (filter (bulletCreated_by sid) (snd (run st es))) \<le> 1"
    using assms(2,3) by (rule window_run)
next
  fix p t assume "map_of (players st) sid = Some p" "may_shoot p t"
  from shoot_accepted [OF this]
  show "\<exists>st' b. on_playerShoot st sid t = (st', [(ToAll, BulletCreated b)]) \<and>
               b_playerId b = sid \<and> b_x b = p_x p \<and> b_y b = p_y p \<and> b_angle b = p_angle p \<and>
               b_speed b = Fin 300 \<and> map_of (bullets st') (b_id b) = Some b \<and>
               map_of (players st') sid = Some (p\<lparr>p_lastShoot := Some t\<rparr>)"
    by blast
qed

theorem shoot_rate_limit_witness:
  "(0::int) < 1000
   \<and> in_window ''A'' 1000 (PlayerShoot ''A'' 1000) \<and> in_window ''A'' 1000 GameLoop
   \<and> in_window ''A'' 1000 (PlayerShoot ''B'' 1100) \<and> in_window ''A'' 1000 (PlayerShoot ''A'' 1199)
   \<and> snd (run (fst (run init_state two_tanks))
        [PlayerShoot ''A'' 1000, GameLoop, PlayerShoot ''B'' 1100, PlayerShoot ''A'' 1199])
      = [(ToAll, BulletCreated \<lparr>b_id = 0, b_playerId = ''A'', b_x = Fin 20, b_y = Fin 20,
            b_angle = Num (Fin 0), b_speed = Fin 300, b_createdAt = 1000\<rparr>),
         (ToAll, PlayerDamaged ''B'' 10), (ToAll, BulletDestroyed 0),
         (ToAll, BulletCreated \<lparr>b_id = 1, b_playerId = ''B'', b_x = Fin 20, b_y = Fin 20,
            b_angle = Num (Fin 0), b_speed = Fin 300, b_createdAt = 1100\<rparr>)]
   \<and> length (filter (bulletCreated_by ''A'')
        (snd (run (fst (run init_state two_tanks))
          [PlayerShoot ''A'' 1000, GameLoop, PlayerShoot ''B'' 1100, PlayerShoot ''A'' 1199])))
      \<le> 1"
  using shoot_rate_limit [of "fst (run init_state two_tanks)" two_tanks 1000
      "[PlayerShoot ''A'' 1000, GameLoop, PlayerShoot ''B'' 1100, PlayerShoot ''A'' 1199]" "''A''"]
  by (simp add: two_tanks_def run_defs)

section \<open>Audio relay\<close>

lemma player_distance_within: "js_le (player_distance p q) (Fin r) = within_units r p q"
  by (cases "p_x p"; cases "p_y p"; cases "p_x q"; cases "p_y q";
      simp add: player_distance_def within_units_def Math_pow2_def js_sub_def inf_of_sign_def
        power2_eq_square not_sum_squares_lt_zero)


lemma nearby_loop_eq:
  "nearby_loop player radius ps =
     map fst (filter (\<lambda>kq. fst kq \<noteq> p_id player \<and> js_le (player_distance player (snd kq)) radius) ps)"
  by (induction ps) auto

lemma relay_loop_eq: "sid \<notin> set ns \<Longrightarrow> relay_loop sid msg ns = map (\<lambda>k. (ToRoom sid k, msg)) ns"
  by (induction ns) auto

lemma filter_others_map_set:
  "filter (\<lambda>kq. fst kq \<noteq> k \<and> P kq) (map_set k v m) = filter (\<lambda>kq. fst kq \<noteq> k \<and> P kq) m"
  by (induction m) auto

lemma within_units_audio [simp]:
  "within_units r (p\<lparr>p_audioEnabled := b, p_lastAudioPacket := t\<rparr>) q = within_units r p q"
  by (simp add: within_units_def)

lemma audio_nearby:
  assumes "p_id p = sid"
  shows "nearby_loop (p\<lparr>p_audioEnabled := True, p_lastAudioPacket := now\<rparr>) (Fin 300)
           (map_set sid (p\<lparr>p_audioEnabled := True, p_lastAudioPacket := now\<rparr>) (players st))
         = neighbours st sid p"
  using assms
  by (simp add: nearby_loop_eq neighbours_def player_distance_within filter_others_map_set)

lemma on_audioStream_accepted:
  assumes "map_of (players st) sid = Some p" and "truthy_payload (a_data frame)"
  shows "players (fst (on_audioStream st sid (Some frame) now)) =
           map_set sid (p\<lparr>p_audioEnabled := True, p_lastAudioPacket := now\<rparr>) (players st)"
    and "connected (fst (on_audioStream st sid (Some frame) now)) = connected st"
    and "snd (on_audioStream st sid (Some frame) now) =
           (if nearby_loop (p\<lparr>p_audioEnabled := True, p_lastAudioPacket := now\<rparr>) (Fin 300)
                 (map_set sid (p\<lparr>p_audioEnabled := True, p_lastAudioPacket := now\<rparr>) (players st)) \<noteq> []
            then relay_loop sid (AudioStream frame sid (p_name p))
                   (nearby_loop (p\<lparr>p_audioEnabled := True, p_lastAudioPacket := now\<rparr>) (Fin 300)
                     (map_set sid (p\<lparr>p_audioEnabled := True, p_lastAudioPacket := now\<rparr>) (players st)))
            else [(Broadcast sid, AudioStream frame sid (p_name p))])"
  using assms by (simp_all add: on_audioStream_def Let_def getNearbyPlayers_def)

lemma delivered_rooms:
  assumes "set ns \<subseteq> set conns" and "sid \<notin> set ns"
  shows "delivered conns (map (\<lambda>k. (ToRoom sid k, msg)) ns) = set ns"
  using assms by (auto simp: delivered_def)

text \<open>
  Claim C6. In a reachable state, an audio frame with a truthy \<open>data\<close> from a socket with
  a player is relayed, tagged with the sender's identity and name: when the other
  players within 300 units of the sender are not none, one message goes to the room of
  each, and the sockets that receive it are exactly these players; otherwise one
  broadcast goes to all connected sockets but the sender. The sender never receives its
  own frame, and its \<open>audioEnabled\<close> and \<open>lastAudioPacket\<close> are updated.
\<close>

theorem audio_relay:
  assumes "st = fst (run init_state es0)" and "map_of (players st) sid = Some p"
    and "truthy_payload (a_data frame)"
  shows "snd (on_audioStream st sid (Some frame) now) =
           (if neighbours st sid p \<noteq> []
            then map (\<lambda>k. (ToRoom sid k, AudioStream frame sid (p_name p))) (neighbours st sid p)
            else [(Broadcast sid, AudioStream frame sid (p_name p))])
       \<and> delivered (connected (fst (on_audioStream st sid (Some frame) now)))
           (snd (on_audioStream st sid (Some frame) now)) =
           (if neighbours st sid p \<noteq> [] then set (neighbours st sid p)
            else set (connected st) - {sid})
       \<and> distinct (neighbours st sid p)
       \<and> sid \<notin> delivered (connected (fst (on_audioStream st sid (Some frame) now)))
                 (snd (on_audioStream st sid (Some frame) now))
       \<and> map_of (players (fst (on_audioStream st sid (Some frame) now))) sid
           = Some (p\<lparr>p_audioEnabled := True, p_lastAudioPacket := now\<rparr>)"
proof -
  let ?near = "neighbours st sid p"
  let ?msg = "AudioStream frame sid (p_name p)"
  let ?st' = "fst (on_audioStream st sid (Some frame) now)"
  let ?out = "snd (on_audioStream st sid (Some frame) now)"
  have wf: "wf_state st" unfolding assms(1) by (rule wf_state_run [OF wf_init_state])
  have mem: "(sid, p) \<in> set (players st)" using assms(2) by (rule map_of_SomeD)
  then have id: "p_id p = sid" using wf by (force simp: wf_state_def)
  have dn: "distinct ?near"
    using wf by (simp add: neighbours_def wf_state_def distinct_map_filter)
  have notin: "sid \<notin> set ?near" by (auto simp: neighbours_def)
  have sub: "set ?near \<subseteq> set (connected st)"
    using wf by (auto simp: neighbours_def wf_state_def)
  have out: "?out = (if ?near \<noteq> [] then map (\<lambda>k. (ToRoom sid k, ?msg)) ?near
                     else [(Broadcast sid, ?msg)])"
    and conn: "connected ?st' = connected st"
    and pl: "players ?st' =
               map_set sid (p\<lparr>p_audioEnabled := True, p_lastAudioPacket := now\<rparr>) (players st)"
    using on_audioStream_accepted [OF assms(2,3), of now] notin
    by (simp_all add: audio_nearby [OF id] relay_loop_eq)
  have del: "delivered (connected ?st') ?out =
           (if ?near \<noteq> [] then set ?near else set (connected st) - {sid})"
    using delivered_rooms [OF sub notin, of ?msg]
    by (simp add: out conn) (simp add: delivered_def)
  have "sid \<notin> delivered (connected ?st') ?out"
    unfolding del using notin by simp
  with out del dn pl show ?thesis by (simp add: map_of_map_set)
qed

theorem audio_relay_witness:
  "map_of (players (fst (run init_state two_tanks))) ''A''
     = Some (newPlayer ''A'' 0 0 ''red'' ''Tank1'' ''websocket'' 1000)
   \<and> truthy_payload (a_data \<lparr>a_data = Samples [0, 12], a_timestamp = Num (Fin 900),
         a_sampleRate = Num (Fin 44100)\<rparr>)
   \<and> neighbours (fst (run init_state two_tanks)) ''A''
        (newPlayer ''A'' 0 0 ''red'' ''Tank1'' ''websocket'' 1000) = [''B'']
   \<and> snd (on_audioStream (fst (run init_state two_tanks)) ''A''
        (Some \<lparr>a_data = Samples [0, 12], a_timestamp = Num (Fin 900),
           a_sampleRate = Num (Fin 44100)\<rparr>) 1000)
      = [(ToRoom ''A'' ''B'',
          AudioStream \<lparr>a_data = Samples [0, 12], a_timestamp = Num (Fin 900),
            a_sampleRate = Num (Fin 44100)\<rparr> ''A'' ''Tank1'')]"
  using audio_relay [of "fst (run init_state two_tanks)" two_tanks "''A''"
      "newPlayer ''A'' 0 0 ''red'' ''Tank1'' ''websocket'' 1000"
      "\<lparr>a_data = Samples [0, 12], a_timestamp = Num (Fin 900), a_sampleRate = Num (Fin 44100)\<rparr>"
      1000]
  by (simp add: two_tanks_def run_defs neighbours_def within_units_def)

end
